theory Spec2Isabelle
  imports Main "HOL-Library.Sublist" "HOL-Library.Multiset"
begin

section \<open>Values of the API description\<close>

text \<open>
  The generator receives the parsed API description as an untyped tree (\<open>api: any\<close>).
  A node is one of the values below. \<open>JObj\<close> lists the own properties of a plain object in
  the order \<open>Object.entries\<close> enumerates them, with distinct keys; \<open>JUndef\<close> is the value of
  a property that is not there; \<open>JBuiltin\<close> stands for a member that a plain object inherits
  from \<open>Object.prototype\<close> (\<open>constructor\<close>, \<open>toString\<close>, ...), which is what a lookup by a
  name taken from the document can return. Numbers are restricted to the integers that
  the number type holds exactly and writes in decimal (a magnitude below \<open>2^53\<close>): the
  generator only tests them for truthiness, passes them on and, for a tag, uses them as a
  key. A \<open>char\<close> stands for one code unit of a string.
\<close>

datatype json =
    JUndef
  | JNull
  | JBool bool
  | JNum int
  | JStr string
  | JArr "json list"
  | JObj "(string \<times> json) list"
  | JBuiltin

text \<open>
  What a step can throw: a \<open>TypeError\<close> of the language (a read on \<open>null\<close> or \<open>undefined\<close>, a
  call of something that is no function, a loop over something that is not iterable, a
  value that cannot become a property key), the \<open>RangeError\<close> of an exhausted call stack,
  or the error of a collaborator: a render function, a write, the making of a directory,
  the loading of the templates. The error of a collaborator carries the text \<open>String(err)\<close>
  under which a diagnostic cites it.
\<close>

datatype error =
    TypeError
  | RangeError
  | RenderFailure string
  | WriteFailure string
  | DirFailure string
  | TemplateLoadFailure string

text \<open>Truthiness, as tested by \<open>if (v)\<close>, \<open>!v\<close>, \<open>a || b\<close> and \<open>a && b\<close>.\<close>

fun truthy :: "json \<Rightarrow> bool" where
  "truthy JUndef = False"
| "truthy JNull = False"
| "truthy (JBool b) = b"
| "truthy (JNum n) = (n \<noteq> 0)"
| "truthy (JStr s) = (s \<noteq> [])"
| "truthy (JArr xs) = True"
| "truthy (JObj kvs) = True"
| "truthy JBuiltin = True"

text \<open>
  \<open>fld v k\<close> is the read \<open>v.k\<close> for the property names the generator spells out in its
  text (\<open>allOf\<close>, \<open>oneOf\<close>, \<open>$ref\<close>, \<open>properties\<close>, \<open>required\<close>, \<open>type\<close>, \<open>format\<close>, \<open>items\<close>,
  \<open>pattern\<close>, \<open>default\<close>, \<open>example\<close>, \<open>description\<close>, \<open>enum\<close>, \<open>tags\<close>, \<open>xOneOfUnion\<close>,
  \<open>components\<close>, \<open>schemas\<close>, \<open>paths\<close>). None of them is inherited by any value, so the read
  gives the own property of an object and \<open>undefined\<close> on everything else. On \<open>null\<close> and
  \<open>undefined\<close> the read throws: \<open>field\<close> has that branch.
\<close>

fun fld :: "json \<Rightarrow> string \<Rightarrow> json" where
  "fld (JObj kvs) k = (case map_of kvs k of Some v \<Rightarrow> v | None \<Rightarrow> JUndef)"
| "fld v k = JUndef"

fun field :: "json \<Rightarrow> string \<Rightarrow> error + json" where
  "field JUndef k = Inl TypeError"
| "field JNull k = Inl TypeError"
| "field v k = Inr (fld v k)"

section \<open>Name sanitizer\<close>

definition PYTHON_RESERVED_WORDS :: "string list" where
  "PYTHON_RESERVED_WORDS =
    [''and'', ''as'', ''assert'', ''break'', ''class'', ''continue'', ''def'', ''del'', ''elif'',
     ''else'', ''except'', ''False'', ''finally'', ''for'', ''from'', ''global'', ''if'', ''import'',
     ''in'', ''is'', ''lambda'', ''None'', ''nonlocal'', ''not'', ''or'', ''pass'', ''raise'',
     ''return'', ''True'', ''try'', ''while'', ''with'', ''yield'']"

text \<open>The character classes \<open>\w\<close> and \<open>\d\<close> of a regular expression without the unicode flag.\<close>

definition isDigit :: "char \<Rightarrow> bool" where
  "isDigit c = (let n = (of_char c :: nat) in 48 \<le> n \<and> n \<le> 57)"

definition isWordChar :: "char \<Rightarrow> bool" where
  "isWordChar c = (let n = (of_char c :: nat) in
     (65 \<le> n \<and> n \<le> 90) \<or> (97 \<le> n \<and> n \<le> 122) \<or> (48 \<le> n \<and> n \<le> 57) \<or> n = 95)"

text \<open>\<open>name.replace(/[^\w]/g, '_')\<close>\<close>

definition replaceNonWord :: "string \<Rightarrow> string" where
  "replaceNonWord name = map (\<lambda>c. if isWordChar c then c else CHR ''_'') name"

text \<open>\<open>/^\d/.test(s)\<close>\<close>

fun startsWithDigit :: "string \<Rightarrow> bool" where
  "startsWithDigit [] = False"
| "startsWithDigit (c # cs) = isDigit c"

definition sanitizeName :: "string \<Rightarrow> string" where
  "sanitizeName name =
     (let safeName = replaceNonWord name;
          safeName = (if safeName \<in> set PYTHON_RESERVED_WORDS then safeName @ ''_'' else safeName)
      in if startsWithDigit safeName then ''_'' @ safeName else safeName)"

definition getEnumName :: "string \<Rightarrow> string \<Rightarrow> string" where
  "getEnumName schemaName propName = sanitizeName (schemaName @ ''_'' @ propName @ ''_Enum'')"

section \<open>Type mapper\<close>

text \<open>\<open>s.split('/')\<close>: the pieces between the separators; never an empty array.\<close>

fun splitOn :: "char \<Rightarrow> string \<Rightarrow> string list" where
  "splitOn sep [] = [[]]"
| "splitOn sep (c # cs) =
     (if c = sep then [] # splitOn sep cs
      else (case splitOn sep cs of
              [] \<Rightarrow> [[c]]
            | seg # segs \<Rightarrow> (c # seg) # segs))"

text \<open>The last element of \<open>ref.split('/')\<close>, read by index or with \<open>pop\<close>.\<close>

definition lastSegment :: "string \<Rightarrow> string" where
  "lastSegment ref = last (splitOn CHR ''/'' ref)"

text \<open>
  The four arguments are whatever the caller read from a node, so they are values of the
  tree. A truthy \<open>ref\<close> that is not a string has no \<open>split\<close> method: the call throws.
  \<open>items\<close> is only read when it is truthy, where a property read cannot throw.
\<close>

function getPythonType :: "json \<Rightarrow> json \<Rightarrow> json \<Rightarrow> json \<Rightarrow> error + string" where
  "getPythonType openapiType format items ref =
     (if truthy ref then
        (case ref of
           JStr r \<Rightarrow> Inr (sanitizeName (lastSegment r))
         | _ \<Rightarrow> Inl TypeError)
      else if \<not> truthy openapiType then Inr ''Any''
      else if openapiType = JStr ''integer'' then Inr ''int''
      else if openapiType = JStr ''number'' then
        (if format = JStr ''float'' \<or> format = JStr ''double'' then Inr ''float'' else Inr ''float'')
      else if openapiType = JStr ''boolean'' then Inr ''bool''
      else if openapiType = JStr ''string'' then
        (if format = JStr ''date'' then Inr ''datetime.date''
         else if format = JStr ''date-time'' then Inr ''datetime.datetime''
         else if format = JStr ''uuid'' then Inr ''uuid.UUID''
         else if format = JStr ''email'' then Inr ''EmailStr''
         else if format = JStr ''uri'' \<or> format = JStr ''url'' then Inr ''AnyUrl''
         else if format = JStr ''byte'' \<or> format = JStr ''binary'' then Inr ''bytes''
         else if format = JStr ''password'' then Inr ''SecretStr''
         else Inr ''str'')
      else if openapiType = JStr ''array'' then
        (if truthy items then
           (case getPythonType (fld items ''type'') (fld items ''format'') (fld items ''items'')
                   (fld items ''$ref'') of
              Inl e \<Rightarrow> Inl e
            | Inr childType \<Rightarrow> Inr (''List['' @ childType @ '']''))
         else Inr (''List['' @ ''Any'' @ '']''))
      else if openapiType = JStr ''object'' then Inr ''Dict[str, Any]''
      else Inr ''Any'')"
  by pat_completeness auto

lemma size_map_of:
  "map_of kvs k = Some v \<Longrightarrow> size v < Suc (size_list (size_prod (\<lambda>x. 0) size) kvs)"
  by (induction kvs) (auto split: if_splits)

lemma size_fld: "truthy v \<Longrightarrow> fld v k \<noteq> JUndef \<Longrightarrow> size (fld v k) < size v"
  by (cases v) (auto split: option.splits dest: size_map_of)

termination getPythonType
proof (relation "measure (\<lambda>(t, f, items, r). if items = JUndef then 0 else Suc (size items))")
  show "wf (measure (\<lambda>(t, f, items, r). if items = JUndef then 0 else Suc (size items)))"
    by simp
next
  fix openapiType format items ref :: json
  assume "truthy items"
  then show "((fld items ''type'', fld items ''format'', fld items ''items'', fld items ''$ref''),
              (openapiType, format, items, ref))
             \<in> measure (\<lambda>(t, f, items, r). if items = JUndef then 0 else Suc (size items))"
    using size_fld [of items "''items''"] by auto
qed

declare getPythonType.simps [simp del]

section \<open>Objects the generator builds\<close>

text \<open>
  The members every plain object inherits from \<open>Object.prototype\<close>. A read \<open>obj[name]\<close>
  with one of these names on an object without such an own property yields the inherited
  built-in function (for \<open>__proto__\<close>, the prototype object), which is truthy.
\<close>

definition OBJECT_PROTOTYPE_NAMES :: "string list" where
  "OBJECT_PROTOTYPE_NAMES =
    [''constructor'', ''__defineGetter__'', ''__defineSetter__'', ''hasOwnProperty'',
     ''__lookupGetter__'', ''__lookupSetter__'', ''isPrototypeOf'', ''propertyIsEnumerable'',
     ''toString'', ''valueOf'', ''__proto__'', ''toLocaleString'']"

type_synonym 'a obj = "(string \<times> 'a) list"

text \<open>\<open>obj[name]\<close> on a plain object, for a name that comes from the document.\<close>

definition member :: "json obj \<Rightarrow> string \<Rightarrow> json" where
  "member kvs name =
     (case map_of kvs name of
        Some v \<Rightarrow> v
      | None \<Rightarrow> if name \<in> set OBJECT_PROTOTYPE_NAMES then JBuiltin else JUndef)"

text \<open>
  Own property keys are enumerated with the array indices first, in ascending numeric
  order, and then the other keys in the order they were created. An array index is the
  canonical decimal form of an integer below \<open>2^32 - 1\<close>.
\<close>

definition indexValue :: "string \<Rightarrow> nat" where
  "indexValue s = foldl (\<lambda>n c. 10 * n + (of_char c - 48)) 0 s"

definition isArrayIndex :: "string \<Rightarrow> bool" where
  "isArrayIndex s =
     (s \<noteq> [] \<and> list_all isDigit s \<and> (s = ''0'' \<or> hd s \<noteq> CHR ''0'')
      \<and> indexValue s < 4294967295)"

fun insertKey :: "string \<Rightarrow> 'a \<Rightarrow> 'a obj \<Rightarrow> 'a obj" where
  "insertKey k v [] = [(k, v)]"
| "insertKey k v ((k', v') # kvs) =
     (if isArrayIndex k \<and> (\<not> isArrayIndex k' \<or> indexValue k < indexValue k')
      then (k, v) # (k', v') # kvs
      else (k', v') # insertKey k v kvs)"

text \<open>
  The write \<open>obj[k] = v\<close> that creates or replaces an own property: an existing key keeps
  its place, a new key takes the place the enumeration order gives it.
\<close>

fun replaceKey :: "string \<Rightarrow> 'a \<Rightarrow> 'a obj \<Rightarrow> 'a obj" where
  "replaceKey k v [] = []"
| "replaceKey k v ((k', v') # kvs) =
     (if k' = k then (k', v) # replaceKey k v kvs else (k', v') # replaceKey k v kvs)"

definition objSet :: "'a obj \<Rightarrow> string \<Rightarrow> 'a \<Rightarrow> 'a obj" where
  "objSet kvs k v =
     (if map_of kvs k \<noteq> None then replaceKey k v kvs else insertKey k v kvs)"

text \<open>The decimal form of a natural number, as in the key of an array element.\<close>

fun showNat :: "nat \<Rightarrow> string" where
  "showNat n = (if n < 10 then [char_of (48 + n)] else showNat (n div 10) @ [char_of (48 + n mod 10)])"

declare showNat.simps [simp del]

definition indexed :: "'a list \<Rightarrow> 'a obj" where
  "indexed xs = map (\<lambda>(i, x). (showNat i, x)) (enumerate 0 xs)"

text \<open>
  The own enumerable properties of a value, as \<open>Object.entries\<close> and an object spread
  \<open>{...v}\<close> see them: the elements of an array and the characters of a string under their
  indices, nothing for the other primitives.
\<close>

fun ownEntries :: "json \<Rightarrow> json obj" where
  "ownEntries (JObj kvs) = kvs"
| "ownEntries (JArr xs) = indexed xs"
| "ownEntries (JStr s) = indexed (map (\<lambda>c. JStr [c]) s)"
| "ownEntries v = []"

text \<open>\<open>Object.entries(v)\<close> throws on \<open>null\<close> and \<open>undefined\<close>.\<close>

fun objectEntries :: "json \<Rightarrow> error + json obj" where
  "objectEntries JUndef = Inl TypeError"
| "objectEntries JNull = Inl TypeError"
| "objectEntries v = Inr (ownEntries v)"

text \<open>\<open>{...a, ...b}\<close>\<close>

definition spread2 :: "json \<Rightarrow> json \<Rightarrow> json obj" where
  "spread2 a b = foldl (\<lambda>acc (k, v). objSet acc k v) [] (ownEntries a @ ownEntries b)"

text \<open>
  The values a \<open>for ... of\<close> loop or an array spread \<open>[...v]\<close> draws from \<open>v\<close>: the elements
  of an array, the characters of a string; any other value is not iterable and the
  statement throws.
\<close>

fun iterate :: "json \<Rightarrow> json list option" where
  "iterate (JArr xs) = Some xs"
| "iterate (JStr s) = Some (map (\<lambda>c. JStr [c]) s)"
| "iterate v = None"

text \<open>
  \<open>Array.from(new Set(xs))\<close>: the first occurrence of every value, in order. Values are
  compared structurally, which is the comparison of a \<open>Set\<close> on strings, numbers, booleans
  and \<open>null\<close>. (A \<open>Set\<close> tells two arrays or objects apart unless they are the same node;
  the statements below are about lists of names.)
\<close>

definition uniqueValues :: "json list \<Rightarrow> json list" where
  "uniqueValues xs = foldl (\<lambda>seen x. if x \<in> set seen then seen else seen @ [x]) [] xs"

section \<open>Schema resolver\<close>

text \<open>
  \<open>resolveRef\<close> is called with a truthy \<open>ref\<close>; a \<open>ref\<close> that is not a string has no \<open>split\<close>
  method. \<open>components\<close> is a plain object, as its declared type \<open>Record<string, any>\<close> says.
\<close>

definition resolveRef :: "json \<Rightarrow> json obj \<Rightarrow> error + json" where
  "resolveRef ref components =
     (case ref of
        JStr r \<Rightarrow> Inr (member components (lastSegment r))
      | _ \<Rightarrow> Inl TypeError)"

text \<open>
  \<open>mergeInto\<close> is only ever applied to the accumulator \<open>merged\<close>, an object whose
  \<open>properties\<close> is an object and whose \<open>required\<close> is an array; the model keeps the
  accumulator as the list of its own properties and returns the updated accumulator.
\<close>

definition mergeInto :: "json obj \<Rightarrow> json \<Rightarrow> error + json obj" where
  "mergeInto base extra =
     (case field extra ''properties'' of
        Inl e \<Rightarrow> Inl e
      | Inr extraProperties \<Rightarrow>
          let base1 =
                (if truthy extraProperties
                 then objSet base ''properties''
                        (JObj (spread2 (fld (JObj base) ''properties'') extraProperties))
                 else base);
              extraRequired = fld extra ''required''
          in if truthy extraRequired
             then (case iterate (fld (JObj base1) ''required'') of
                     None \<Rightarrow> Inl TypeError
                   | Some baseReq \<Rightarrow>
                       (case iterate extraRequired of
                          None \<Rightarrow> Inl TypeError
                        | Some extraReq \<Rightarrow>
                            Inr (objSet base1 ''required''
                                   (JArr (uniqueValues (baseReq @ extraReq))))))
             else Inr base1)"

text \<open>One member of a \<open>oneOf\<close> list, as the callback of \<open>schema.oneOf.map\<close> names it.\<close>

definition unionMember :: "json \<Rightarrow> error + string" where
  "unionMember sub =
     (case field sub ''$ref'' of
        Inl e \<Rightarrow> Inl e
      | Inr ref \<Rightarrow>
          if truthy ref
          then (case ref of JStr r \<Rightarrow> Inr (sanitizeName (lastSegment r)) | _ \<Rightarrow> Inl TypeError)
          else Inr ''Any'')"

fun unionMembers :: "json list \<Rightarrow> error + string list" where
  "unionMembers [] = Inr []"
| "unionMembers (sub # subs) =
     (case unionMember sub of
        Inl e \<Rightarrow> Inl e
      | Inr name \<Rightarrow>
          (case unionMembers subs of
             Inl e \<Rightarrow> Inl e
           | Inr names \<Rightarrow> Inr (name # names)))"

text \<open>
  The accumulator of an \<open>allOf\<close> merge, \<open>{ type: 'object', properties: ps, required: req }\<close>;
  it starts as \<open>{ type: 'object', properties: {}, required: [] }\<close>.
\<close>

definition accumulator :: "json obj \<Rightarrow> json list \<Rightarrow> json obj" where
  "accumulator ps req =
     [(''type'', JStr ''object''), (''properties'', JObj ps), (''required'', JArr req)]"

definition emptyMerged :: "json obj" where
  "emptyMerged = accumulator [] []"

text \<open>
  The schema an \<open>allOf\<close> member stands for: the target of its reference when \<open>sub.$ref\<close> is
  truthy, the member itself otherwise.
\<close>

definition memberTarget :: "json obj \<Rightarrow> json \<Rightarrow> error + json" where
  "memberTarget components sub =
     (case field sub ''$ref'' of
        Inl e \<Rightarrow> Inl e
      | Inr ref \<Rightarrow> if truthy ref then resolveRef ref components else Inr sub)"

text \<open>
  \<open>mergeComplexSchema\<close> calls itself through the references of \<open>allOf\<close> members, and a cycle
  of references never returns. The first argument bounds the depth of nested calls:
  \<open>None\<close> is the run that needs a deeper nesting. \<open>mergeAllOf\<close> is the loop over the
  members of \<open>allOf\<close>, with the accumulator \<open>merged\<close>. A truthy \<open>oneOf\<close> that is not an array
  has no \<open>map\<close> method.
\<close>

fun mergeComplexSchema :: "nat \<Rightarrow> json \<Rightarrow> json obj \<Rightarrow> (error + json) option"
  and mergeAllOf :: "nat \<Rightarrow> json list \<Rightarrow> json obj \<Rightarrow> json obj \<Rightarrow> (error + json obj) option"
where
  "mergeComplexSchema 0 schema components = None"
| "mergeComplexSchema (Suc n) schema components =
     (case field schema ''allOf'' of
        Inl e \<Rightarrow> Some (Inl e)
      | Inr allOf \<Rightarrow>
          if truthy allOf then
            (case iterate allOf of
               None \<Rightarrow> Some (Inl TypeError)
             | Some subs \<Rightarrow>
                 (case mergeAllOf n subs emptyMerged components of
                    None \<Rightarrow> None
                  | Some (Inl e) \<Rightarrow> Some (Inl e)
                  | Some (Inr merged) \<Rightarrow> Some (Inr (JObj merged))))
          else if truthy (fld schema ''oneOf'') then
            (case fld schema ''oneOf'' of
               JArr subs \<Rightarrow>
                 (case unionMembers subs of
                    Inl e \<Rightarrow> Some (Inl e)
                  | Inr names \<Rightarrow> Some (Inr (JObj [(''xOneOfUnion'', JArr (map JStr names))])))
             | _ \<Rightarrow> Some (Inl TypeError))
          else Some (Inr schema))"
| "mergeAllOf n [] merged components = Some (Inr merged)"
| "mergeAllOf n (sub # subs) merged components =
     (case memberTarget components sub of
        Inl e \<Rightarrow> Some (Inl e)
      | Inr target \<Rightarrow>
          (case mergeComplexSchema n target components of
             None \<Rightarrow> None
           | Some (Inl e) \<Rightarrow> Some (Inl e)
           | Some (Inr resolved) \<Rightarrow>
               (case mergeInto merged resolved of
                  Inl e \<Rightarrow> Some (Inl e)
                | Inr merged' \<Rightarrow> mergeAllOf n subs merged' components)))"

section \<open>Vocabulary of the statements about the resolver\<close>

text \<open>What \<open>mergeInto\<close> reads from a resolved member: its properties and its required names.\<close>

definition memberProperties :: "json \<Rightarrow> json obj" where
  "memberProperties r =
     (if truthy (fld r ''properties'') then ownEntries (fld r ''properties'') else [])"

definition memberRequired :: "json \<Rightarrow> json list option" where
  "memberRequired r =
     (if truthy (fld r ''required'') then iterate (fld r ''required'') else Some [])"






text \<open>A node without one of its own properties.\<close>

definition removeKey :: "string \<Rightarrow> 'a obj \<Rightarrow> 'a obj" where
  "removeKey k kvs = filter (\<lambda>(k', v). k' \<noteq> k) kvs"




section \<open>Property processing\<close>

text \<open>\<open>str.replace(/pat/g, rep)\<close> for a literal, non-empty pattern: every occurrence, left to right.\<close>

function replaceAll :: "string \<Rightarrow> string \<Rightarrow> string \<Rightarrow> string" where
  "replaceAll pat rep [] = []"
| "replaceAll pat rep (c # cs) =
     (if pat \<noteq> [] \<and> prefix pat (c # cs)
      then rep @ replaceAll pat rep (drop (length pat) (c # cs))
      else c # replaceAll pat rep cs)"
  by pat_completeness auto

termination replaceAll
  by (relation "measure (\<lambda>(pat, rep, s). length s)") (auto simp: neq_Nil_conv)

definition decodeHtmlEntities :: "string \<Rightarrow> string" where
  "decodeHtmlEntities str = replaceAll ''&amp;'' ''&'' (replaceAll ''&quot;'' [CHR 0x22] str)"

text \<open>
  The literal of a \<open>default\<close>: a boolean becomes \<open>True\<close> or \<open>False\<close>, a string is put in
  double quotes, anything else is kept.
\<close>

fun defaultLiteral :: "json \<Rightarrow> json" where
  "defaultLiteral (JBool b) = JStr (if b then ''True'' else ''False'')"
| "defaultLiteral (JStr s) = JStr ([CHR 0x22] @ s @ [CHR 0x22])"
| "defaultLiteral v = v"

text \<open>The literal of an \<open>example\<close>: a string is put in double quotes, anything else is kept.\<close>

fun exampleLiteral :: "json \<Rightarrow> json" where
  "exampleLiteral (JStr s) = JStr ([CHR 0x22] @ s @ [CHR 0x22])"
| "exampleLiteral v = v"

text \<open>
  The raw-string literal of a validation pattern. A truthy pattern that is not a string
  has no \<open>replace\<close> method.
\<close>

definition patternLiteral :: "json \<Rightarrow> error + json" where
  "patternLiteral pattern =
     (if truthy pattern
      then (case pattern of
              JStr p \<Rightarrow> Inr (JStr (''r'' @ [CHR 0x22] @ decodeHtmlEntities p @ [CHR 0x22]))
            | _ \<Rightarrow> Inl TypeError)
      else Inr JUndef)"

text \<open>
  The body of the loop over \<open>Object.entries(sch.properties)\<close>: the entry stored for one
  property. Reading \<open>ps.type\<close> throws when the property schema is \<open>null\<close>.
\<close>

definition processProperty :: "string \<Rightarrow> json \<Rightarrow> error + json" where
  "processProperty propName ps =
     (case field ps ''type'' of
        Inl e \<Rightarrow> Inl e
      | Inr openapiType \<Rightarrow>
          (case getPythonType openapiType (fld ps ''format'') (fld ps ''items'') (fld ps ''$ref'') of
             Inl e \<Rightarrow> Inl e
           | Inr pyType \<Rightarrow>
               (case patternLiteral (fld ps ''pattern'') of
                  Inl e \<Rightarrow> Inl e
                | Inr regex \<Rightarrow>
                    Inr (JObj
                      [(''originalName'', JStr propName),
                       (''name'', JStr (sanitizeName propName)),
                       (''type'', JStr pyType),
                       (''default'', defaultLiteral (fld ps ''default'')),
                       (''example'', exampleLiteral (fld ps ''example'')),
                       (''regex'', regex),
                       (''description'',
                          (if truthy (fld ps ''description'') then fld ps ''description'' else JStr [])),
                       (''enum'', fld ps ''enum'')]))))"

text \<open>
  The write \<open>processedProperties[sanitizedName] = entry\<close> on a plain object. The key
  \<open>__proto__\<close> is the one key such a write does not store: the assignment runs the setter
  inherited from \<open>Object.prototype\<close>, which makes \<open>entry\<close> the prototype of the map and
  creates no own property.
\<close>

definition assignProperty :: "json obj \<Rightarrow> string \<Rightarrow> json \<Rightarrow> json obj" where
  "assignProperty kvs k v = (if k = ''__proto__'' then kvs else objSet kvs k v)"

fun processProperties :: "json obj \<Rightarrow> json obj \<Rightarrow> error + json obj" where
  "processProperties processedProperties [] = Inr processedProperties"
| "processProperties processedProperties ((propName, ps) # rest) =
     (case processProperty propName ps of
        Inl e \<Rightarrow> Inl e
      | Inr entry \<Rightarrow>
          processProperties (assignProperty processedProperties (sanitizeName propName) entry) rest)"

text \<open>
  \<open>processEnums\<close>: for every entry whose \<open>enum\<close> is an array, an enum declaration; the
  entry's \<open>type\<close> becomes the name of the enum. The result is the list of declarations
  and the updated map.
\<close>

fun isArray :: "json \<Rightarrow> bool" where
  "isArray (JArr xs) = True"
| "isArray v = False"

definition setType :: "json \<Rightarrow> string \<Rightarrow> json" where
  "setType entry enumName =
     (case entry of JObj kvs \<Rightarrow> JObj (objSet kvs ''type'' (JStr enumName)) | v \<Rightarrow> v)"

fun processEnums :: "string \<Rightarrow> json obj \<Rightarrow> json list \<times> json obj" where
  "processEnums schemaName [] = ([], [])"
| "processEnums schemaName ((propKey, propObj) # rest) =
     (let (enums, rest') = processEnums schemaName rest
      in if isArray (fld propObj ''enum'')
         then (JObj [(''enumName'', JStr (getEnumName schemaName propKey)),
                     (''values'', fld propObj ''enum'')] # enums,
               (propKey, setType propObj (getEnumName schemaName propKey)) # rest')
         else (enums, (propKey, propObj) # rest'))"

text \<open>\<open>s.includes(sub)\<close>\<close>

fun includesStr :: "string \<Rightarrow> string \<Rightarrow> bool" where
  "includesStr [] sub = (sub = [])"
| "includesStr (c # cs) sub = (prefix sub (c # cs) \<or> includesStr cs sub)"

definition importsOfType :: "string \<Rightarrow> string list" where
  "importsOfType t =
     (if includesStr t ''List['' then [''from typing import List''] else [])
     @ (if includesStr t ''Dict['' then [''from typing import Dict, Any''] else [])
     @ (if includesStr t ''AnyUrl'' then [''from pydantic import AnyUrl''] else [])
     @ (if includesStr t ''EmailStr'' then [''from pydantic import EmailStr''] else [])
     @ (if includesStr t ''SecretStr'' then [''from pydantic import SecretStr''] else [])
     @ (if includesStr t ''datetime.date'' \<or> includesStr t ''datetime.datetime''
        then [''import datetime''] else [])
     @ (if includesStr t ''uuid.UUID'' then [''import uuid''] else [])"

text \<open>The first occurrence of every element, as a \<open>Set\<close> of strings keeps them.\<close>

definition firstOccurrences :: "string list \<Rightarrow> string list" where
  "firstOccurrences xs = foldl (\<lambda>seen x. if x \<in> set seen then seen else seen @ [x]) [] xs"

definition gatherImportsForProps :: "json obj \<Rightarrow> string list" where
  "gatherImportsForProps processedProperties =
     firstOccurrences
       (concat (map (\<lambda>(k, entry). case fld entry ''type'' of
                                    JStr t \<Rightarrow> importsOfType t
                                  | _ \<Rightarrow> [])
                    processedProperties))"

section \<open>Vocabulary of the statements about property processing\<close>

text \<open>
  The last property, in the order of the loop, whose name sanitizes to the identifier \<open>k\<close>.
\<close>

definition lastWithIdentifier :: "string \<Rightarrow> json obj \<Rightarrow> (string \<times> json) option" where
  "lastWithIdentifier k entries = find (\<lambda>(n, ps). sanitizeName n = k) (rev entries)"

text \<open>
  The own properties of the object a document declares by the given members in the given
  order, in the order \<open>Object.entries\<close> enumerates them.
\<close>

definition declared :: "json obj \<Rightarrow> json obj" where
  "declared members = foldl (\<lambda>acc (k, v). objSet acc k v) [] members"

section \<open>Operation grouper\<close>

text \<open>
  The string a value becomes when it is used as a property key, as in \<open>pathsByTag[tag]\<close>.
  An integer is written in decimal, which is the notation of the numbers of a description
  (see the first section). An array joins the strings of its elements with commas, \<open>null\<close> and
  \<open>undefined\<close> elements giving the empty string. A plain object is converted by its
  \<open>toString\<close> member: the inherited one gives \<open>[object Object]\<close>; an own property \<open>toString\<close>
  of a description is data, not a function, so the conversion goes on to \<open>valueOf\<close>, which
  is either own data as well or the inherited function that gives back the object itself,
  and with no primitive value found the conversion throws a \<open>TypeError\<close>. The conversion of
  an array throws when that of one of its elements does. (A description holds no
  \<open>JBuiltin\<close>; its clause stands for the source text of a built-in function.)
\<close>

definition showInt :: "int \<Rightarrow> string" where
  "showInt i = (if i < 0 then ''-'' @ showNat (nat (- i)) else showNat (nat i))"

fun joinComma :: "string list \<Rightarrow> string" where
  "joinComma [] = []"
| "joinComma [s] = s"
| "joinComma (s # t # rest) = s @ '','' @ joinComma (t # rest)"

text \<open>The values of a sequence of conversions, or the error of the first that throws.\<close>

fun collect :: "(error + 'a) list \<Rightarrow> error + 'a list" where
  "collect [] = Inr []"
| "collect (r # rs) =
     (case r of
        Inl e \<Rightarrow> Inl e
      | Inr x \<Rightarrow> (case collect rs of Inl e \<Rightarrow> Inl e | Inr xs \<Rightarrow> Inr (x # xs)))"

fun toPropertyKey :: "json \<Rightarrow> error + string" where
  "toPropertyKey JUndef = Inr ''undefined''"
| "toPropertyKey JNull = Inr ''null''"
| "toPropertyKey (JBool b) = Inr (if b then ''true'' else ''false'')"
| "toPropertyKey (JNum n) = Inr (showInt n)"
| "toPropertyKey (JStr s) = Inr s"
| "toPropertyKey (JArr xs) =
     (case collect (map (\<lambda>x. if x = JUndef \<or> x = JNull then Inr [] else toPropertyKey x) xs) of
        Inl e \<Rightarrow> Inl e
      | Inr strings \<Rightarrow> Inr (joinComma strings))"
| "toPropertyKey (JObj kvs) =
     (if map_of kvs ''toString'' \<noteq> None then Inl TypeError else Inr ''[object Object]'')"
| "toPropertyKey JBuiltin = Inr ''function () { [native code] }''"

text \<open>\<open>tags[0]\<close> on a truthy \<open>tags\<close>.\<close>

fun firstElement :: "json \<Rightarrow> json" where
  "firstElement (JArr xs) = (case xs of [] \<Rightarrow> JUndef | x # rest \<Rightarrow> x)"
| "firstElement (JStr s) = (case s of [] \<Rightarrow> JUndef | c # rest \<Rightarrow> JStr [c])"
| "firstElement (JObj kvs) = fld (JObj kvs) ''0''"
| "firstElement v = JUndef"

text \<open>
  \<open>const tags = operation.tags || ['api']; const tag = tags[0]\<close>, as the key \<open>tag\<close> is used
  as in \<open>pathsByTag[tag]\<close>; the conversion to a key is what can throw.
\<close>

definition groupKey :: "json \<Rightarrow> error + string" where
  "groupKey operation =
     (let tags = (if truthy (fld operation ''tags'') then fld operation ''tags''
                  else JArr [JStr ''api''])
      in toPropertyKey (firstElement tags))"

text \<open>
  The members of a path item the loop does not skip: \<open>operation\<close> is truthy and
  \<open>typeof operation\<close> is \<open>object\<close>, which holds of an array as well as of a plain object.
\<close>

fun isObjectNode :: "json \<Rightarrow> bool" where
  "isObjectNode (JObj kvs) = True"
| "isObjectNode (JArr xs) = True"
| "isObjectNode v = False"

type_synonym groupMember = "string \<times> string \<times> json"

text \<open>
  \<open>if (!pathsByTag[tag]) pathsByTag[tag] = []; pathsByTag[tag].push(m)\<close> on the plain
  object \<open>pathsByTag\<close>. For a tag that names a member inherited from \<open>Object.prototype\<close> and
  has no group yet, the read yields the inherited member, which is truthy and has no
  \<open>push\<close> method: the call throws.
\<close>

definition addOperation :: "groupMember list obj \<Rightarrow> string \<Rightarrow> groupMember \<Rightarrow> error + groupMember list obj" where
  "addOperation pathsByTag tag m =
     (case map_of pathsByTag tag of
        Some ms \<Rightarrow> Inr (objSet pathsByTag tag (ms @ [m]))
      | None \<Rightarrow>
          if tag \<in> set OBJECT_PROTOTYPE_NAMES then Inl TypeError
          else Inr (objSet pathsByTag tag [m]))"

fun groupMethods :: "string \<Rightarrow> json obj \<Rightarrow> groupMember list obj \<Rightarrow> error + groupMember list obj" where
  "groupMethods pathUrl [] pathsByTag = Inr pathsByTag"
| "groupMethods pathUrl ((method, operation) # rest) pathsByTag =
     (if \<not> isObjectNode operation then groupMethods pathUrl rest pathsByTag
      else (case groupKey operation of
              Inl e \<Rightarrow> Inl e
            | Inr tag \<Rightarrow>
                (case addOperation pathsByTag tag (pathUrl, method, operation) of
                   Inl e \<Rightarrow> Inl e
                 | Inr pathsByTag' \<Rightarrow> groupMethods pathUrl rest pathsByTag')))"

fun groupPaths :: "json obj \<Rightarrow> groupMember list obj \<Rightarrow> error + groupMember list obj" where
  "groupPaths [] pathsByTag = Inr pathsByTag"
| "groupPaths ((pathUrl, pathItem) # rest) pathsByTag =
     (case objectEntries pathItem of
        Inl e \<Rightarrow> Inl e
      | Inr methods \<Rightarrow>
          (case groupMethods pathUrl methods pathsByTag of
             Inl e \<Rightarrow> Inl e
           | Inr pathsByTag' \<Rightarrow> groupPaths rest pathsByTag'))"

text \<open>The grouping loop of \<open>generate\<close>, run on a truthy \<open>api.paths\<close>.\<close>

definition groupOperations :: "json \<Rightarrow> error + groupMember list obj" where
  "groupOperations paths = groupPaths (ownEntries paths) []"

section \<open>Vocabulary of the statements about the grouper\<close>

text \<open>
  The (path, method, node) triples of a paths mapping that pass a test on the node, in the
  order the loops visit them.
\<close>

definition membersWhere :: "(json \<Rightarrow> bool) \<Rightarrow> json obj \<Rightarrow> groupMember list" where
  "membersWhere test entries =
     concat (map (\<lambda>(pathUrl, pathItem).
                    map (\<lambda>(method, operation). (pathUrl, method, operation))
                        (filter (\<lambda>(method, operation). test operation) (ownEntries pathItem)))
                 entries)"

text \<open>The triples the loop files: those that pass its own test.\<close>

definition filedMembers :: "json \<Rightarrow> groupMember list" where
  "filedMembers paths = membersWhere isObjectNode (ownEntries paths)"

text \<open>
  An object node of the description: a mapping from names to nodes. An array is a
  sequence node, not an object node.
\<close>

fun isObject :: "json \<Rightarrow> bool" where
  "isObject (JObj kvs) = True"
| "isObject v = False"

text \<open>The triples of a paths mapping whose operation node is an object.\<close>

definition objectOperations :: "json \<Rightarrow> groupMember list" where
  "objectOperations paths = membersWhere isObject (ownEntries paths)"

definition pathMethod :: "groupMember \<Rightarrow> string \<times> string" where
  "pathMethod m = (fst m, fst (snd m))"

definition allMembers :: "groupMember list obj \<Rightarrow> groupMember list" where
  "allMembers groups = concat (map snd groups)"

text \<open>
  Every group is non-empty and holds only members whose grouping key is the group's tag.
\<close>

definition filedUnderKey :: "groupMember list obj \<Rightarrow> bool" where
  "filedUnderKey g =
     list_all (\<lambda>(tag, ms). ms \<noteq> [] \<and> list_all (\<lambda>m. groupKey (snd (snd m)) = Inr tag) ms) g"

text \<open>
  No member of a path item is an array (as the parameters and the servers of a path item
  are).
\<close>

definition noArrayMembers :: "json \<Rightarrow> bool" where
  "noArrayMembers paths =
     list_all (\<lambda>(pathUrl, pathItem). list_all (\<lambda>(method, operation). \<not> isArray operation)
                                         (ownEntries pathItem))
              (ownEntries paths)"

text \<open>
  The grouping key of a node can be computed and names no member inherited from
  \<open>Object.prototype\<close>.
\<close>

definition keyIsOwnName :: "json \<Rightarrow> bool" where
  "keyIsOwnName operation =
     (case groupKey operation of
        Inl e \<Rightarrow> False
      | Inr tag \<Rightarrow> tag \<notin> set OBJECT_PROTOTYPE_NAMES)"

section \<open>Emission pipeline\<close>

text \<open>
  What a run changes outside the program: the files it has written (path and content,
  oldest first), the directories it has made and the diagnostics it has logged (level and
  message; the language tag of every diagnostic is \<open>python-fastapi\<close>).
\<close>

record world =
  written :: "(string \<times> string) list"
  madeDirs :: "string list"
  logged :: "(string \<times> string) list"

text \<open>
  The collaborators of the generator are parameters of the model: \<open>path.join\<close>,
  \<open>String.prototype.toLowerCase\<close>, the file system (whether a directory exists, and
  \<open>String(err)\<close> for the error with which making a directory or writing a file fails, if
  it fails), and the outcome of \<open>loadTemplates('python-fastapi')\<close>: an error, or the
  templates by name, each a render function from a context to a string that may throw. A
  write either stores the whole content or fails and stores nothing. The message the
  engine gives a \<open>TypeError\<close> is a parameter too: every handler of \<open>generate\<close> throws the error
  it caught again, so a run sees at most one error.
\<close>

type_synonym template = "json \<Rightarrow> error + string"

record env =
  pathJoin :: "string \<Rightarrow> string \<Rightarrow> string"
  toLowerCase :: "string \<Rightarrow> string"
  existsSync :: "world \<Rightarrow> string \<Rightarrow> bool"
  mkdirError :: "world \<Rightarrow> string \<Rightarrow> string option"
  writeError :: "world \<Rightarrow> string \<Rightarrow> string \<Rightarrow> string option"
  loadTemplates :: "error + (string \<Rightarrow> template option)"
  typeErrorMessage :: string

text \<open>
  \<open>String(err)\<close>, the text of an error in a diagnostic: the name of the error, a colon and
  its message.
\<close>

fun errorText :: "env \<Rightarrow> error \<Rightarrow> string" where
  "errorText E TypeError = ''TypeError: '' @ typeErrorMessage E"
| "errorText E RangeError = ''RangeError: Maximum call stack size exceeded''"
| "errorText E (RenderFailure shown) = shown"
| "errorText E (WriteFailure shown) = shown"
| "errorText E (DirFailure shown) = shown"
| "errorText E (TemplateLoadFailure shown) = shown"

definition logMessage :: "string \<Rightarrow> string \<Rightarrow> world \<Rightarrow> world" where
  "logMessage level message w = w\<lparr>logged := logged w @ [(level, message)]\<rparr>"

definition logAll :: "string \<Rightarrow> string list \<Rightarrow> world \<Rightarrow> world" where
  "logAll level messages w = foldl (\<lambda>w' message. logMessage level message w') w messages"

definition ensureOutputDir :: "env \<Rightarrow> string \<Rightarrow> world \<Rightarrow> error + world" where
  "ensureOutputDir E dirPath w =
     (if existsSync E w dirPath then Inr w
      else (case mkdirError E w dirPath of
              Some shown \<Rightarrow> Inl (DirFailure shown)
            | None \<Rightarrow> Inr (w\<lparr>madeDirs := madeDirs w @ [dirPath]\<rparr>)))"

definition writeFileSync :: "env \<Rightarrow> string \<Rightarrow> string \<Rightarrow> world \<Rightarrow> error + world" where
  "writeFileSync E path content w =
     (case writeError E w path content of
        Some shown \<Rightarrow> Inl (WriteFailure shown)
      | None \<Rightarrow> Inr (w\<lparr>written := written w @ [(path, content)]\<rparr>))"

text \<open>
  The outcome of a step: the error it throws, if any, and the world it leaves. Steps run
  in sequence; a step that throws ends the sequence.
\<close>

type_synonym outcome = "error option \<times> world"

text \<open>
  The body and the handler of the \<open>try\<close> block around one artifact: render the content,
  write it; on a failure of either, log an error-level diagnostic that starts with the
  artifact's own text and throw the error again.
\<close>

definition renderAndWrite :: "env \<Rightarrow> template \<Rightarrow> json \<Rightarrow> string \<Rightarrow> string \<Rightarrow> world \<Rightarrow> outcome" where
  "renderAndWrite E tmpl ctx path diagnostic w =
     (case tmpl ctx of
        Inl e \<Rightarrow> (Some e, logMessage ''ERROR'' (diagnostic @ errorText E e) w)
      | Inr content \<Rightarrow>
          (case writeFileSync E path content w of
             Inl e \<Rightarrow> (Some e, logMessage ''ERROR'' (diagnostic @ errorText E e) w)
           | Inr w' \<Rightarrow> (None, w')))"

text \<open>One of \<open>main.py\<close>, \<open>requirements.txt\<close>, \<open>README.md\<close>: skipped when its template is absent.\<close>

definition generateTopLevel ::
  "env \<Rightarrow> (string \<Rightarrow> template option) \<Rightarrow> string \<Rightarrow> string \<Rightarrow> json \<Rightarrow> string \<Rightarrow> world \<Rightarrow> outcome" where
  "generateTopLevel E templates name fileName api outputDir w =
     (case templates name of
        None \<Rightarrow> (None, w)
      | Some tmpl \<Rightarrow>
          renderAndWrite E tmpl api (pathJoin E outputDir fileName)
            (''Error generating '' @ fileName @ '': '')
            (logMessage ''INFO'' (''Generating '' @ fileName @ ''...'') w))"

text \<open>\<open>(api.components && api.components.schemas) || {}\<close>; reading \<open>api.components\<close> throws on \<open>null\<close>.\<close>

definition componentsOf :: "json \<Rightarrow> error + json obj" where
  "componentsOf api =
     (case field api ''components'' of
        Inl e \<Rightarrow> Inl e
      | Inr c \<Rightarrow>
          let schemas = (if truthy c then fld c ''schemas'' else c)
          in Inr (if truthy schemas then ownEntries schemas else []))"

text \<open>
  \<open>sch.processedProperties = processedProperties\<close> on the resolved schema. The assignment
  changes the schema object in place; the run reads that property nowhere, so the model
  hands the changed schema to the template and keeps the description as it was. (The
  description is a tree: an operation that shares a schema object with the components
  would show the new property to the route template as well.)
\<close>

definition setProcessedProperties :: "json \<Rightarrow> json obj \<Rightarrow> json" where
  "setProcessedProperties sch processedProperties =
     (case sch of
        JObj kvs \<Rightarrow> JObj (objSet kvs ''processedProperties'' (JObj processedProperties))
      | v \<Rightarrow> v)"

text \<open>
  The diagnostics \<open>mergeComplexSchema\<close> logs, all at the level \<open>DEBUG\<close>: one when it enters
  its \<open>allOf\<close> branch and one when it enters its \<open>oneOf\<close> branch, in the order of the calls,
  up to the point where the outermost call returns, throws, or finds no room for a
  nested call.
\<close>

fun mergeComplexSchemaLog :: "nat \<Rightarrow> json \<Rightarrow> json obj \<Rightarrow> string list"
  and mergeAllOfLog :: "nat \<Rightarrow> json list \<Rightarrow> json obj \<Rightarrow> json obj \<Rightarrow> string list"
where
  "mergeComplexSchemaLog 0 schema components = []"
| "mergeComplexSchemaLog (Suc n) schema components =
     (case field schema ''allOf'' of
        Inl e \<Rightarrow> []
      | Inr allOf \<Rightarrow>
          if truthy allOf then
            ''Merging allOf schema...'' #
            (case iterate allOf of
               None \<Rightarrow> []
             | Some subs \<Rightarrow> mergeAllOfLog n subs emptyMerged components)
          else if truthy (fld schema ''oneOf'') then [''Converting oneOf to a union marker...'']
          else [])"
| "mergeAllOfLog n [] merged components = []"
| "mergeAllOfLog n (sub # subs) merged components =
     (case memberTarget components sub of
        Inl e \<Rightarrow> []
      | Inr target \<Rightarrow>
          mergeComplexSchemaLog n target components @
          (case mergeComplexSchema n target components of
             Some (Inr resolved) \<Rightarrow>
               (case mergeInto merged resolved of
                  Inl e \<Rightarrow> []
                | Inr merged' \<Rightarrow> mergeAllOfLog n subs merged' components)
           | _ \<Rightarrow> []))"

text \<open>
  The body of the loop over the named schemas. \<open>n\<close> is the number of nested calls of
  \<open>mergeComplexSchema\<close> the call stack has room for: a resolution that needs a deeper
  nesting, as every cycle of references does, ends in a \<open>RangeError\<close>.
\<close>

definition generateSchema ::
  "env \<Rightarrow> (string \<Rightarrow> template option) \<Rightarrow> nat \<Rightarrow> json obj \<Rightarrow> string \<Rightarrow> string \<Rightarrow> json \<Rightarrow> world
     \<Rightarrow> outcome" where
  "generateSchema E templates n components modelsDir schemaName schemaDef w =
     (let w1 = logAll ''DEBUG'' (mergeComplexSchemaLog n schemaDef components)
                 (logMessage ''DEBUG'' (''Processing schema: '' @ schemaName @ ''...'') w);
          modelPath = pathJoin E modelsDir (toLowerCase E schemaName @ ''.py'')
      in case mergeComplexSchema n schemaDef components of
           None \<Rightarrow> (Some RangeError, w1)
         | Some (Inl e) \<Rightarrow> (Some e, w1)
         | Some (Inr sch) \<Rightarrow>
             if truthy (fld sch ''xOneOfUnion'') then
               (let w2 = logMessage ''DEBUG'' (''Detected oneOf union in schema: '' @ schemaName) w1
                in case templates ''one_of_union'' of
                     None \<Rightarrow> (None, w2)
                   | Some tmpl \<Rightarrow>
                       renderAndWrite E tmpl
                         (JObj [(''name'', JStr schemaName),
                                (''unionTypes'', fld sch ''xOneOfUnion'')])
                         modelPath ''Error generating oneOf union model: '' w2)
             else if truthy (fld sch ''properties'') then
               (let w2 = logMessage ''DEBUG'' (''Building properties for: '' @ schemaName) w1
                in case processProperties [] (ownEntries (fld sch ''properties'')) of
                     Inl e \<Rightarrow> (Some e, w2)
                   | Inr processedProperties \<Rightarrow>
                       (let w3 = logMessage ''DEBUG'' (''Checking for enum fields in: '' @ schemaName) w2;
                            (createdEnums, processed) = processEnums schemaName processedProperties;
                            importsList = gatherImportsForProps processed
                        in case templates ''model_class'' of
                             None \<Rightarrow> (None, w3)
                           | Some tmpl \<Rightarrow>
                               renderAndWrite E tmpl
                                 (JObj [(''name'', JStr schemaName),
                                        (''schema'', setProcessedProperties sch processed),
                                        (''importsList'', JArr (map JStr importsList)),
                                        (''createdEnums'', JArr createdEnums)])
                                 modelPath
                                 (''Error generating model for '' @ schemaName @ '': '')
                                 (logMessage ''INFO''
                                    (''Rendering model_class template for: '' @ schemaName) w3)))
             else
               (let w2 = logMessage ''WARN''
                           (''Schema '' @ schemaName @ '' has no properties; creating empty model.'') w1
                in case templates ''model_class'' of
                     None \<Rightarrow> (None, w2)
                   | Some tmpl \<Rightarrow>
                       renderAndWrite E tmpl
                         (JObj [(''name'', JStr schemaName), (''schema'', sch),
                                (''importsList'', JArr []), (''createdEnums'', JArr [])])
                         modelPath
                         (''Error generating empty model for '' @ schemaName @ '': '') w2))"

fun generateSchemas ::
  "env \<Rightarrow> (string \<Rightarrow> template option) \<Rightarrow> nat \<Rightarrow> json obj \<Rightarrow> string \<Rightarrow> json obj \<Rightarrow> world
     \<Rightarrow> outcome" where
  "generateSchemas E templates n components modelsDir [] w = (None, w)"
| "generateSchemas E templates n components modelsDir ((schemaName, schemaDef) # rest) w =
     (case generateSchema E templates n components modelsDir schemaName schemaDef w of
        (Some e, w') \<Rightarrow> (Some e, w')
      | (None, w') \<Rightarrow> generateSchemas E templates n components modelsDir rest w')"

text \<open>The context entry \<open>{ path, method, operation }\<close> of a group member.\<close>

definition memberContext :: "groupMember \<Rightarrow> json" where
  "memberContext m =
     JObj [(''path'', JStr (fst m)), (''method'', JStr (fst (snd m))), (''operation'', snd (snd m))]"

text \<open>The loop that renders one route file per group.\<close>

fun generateRoutes :: "env \<Rightarrow> template \<Rightarrow> string \<Rightarrow> groupMember list obj \<Rightarrow> world \<Rightarrow> outcome" where
  "generateRoutes E tmpl apisDir [] w = (None, w)"
| "generateRoutes E tmpl apisDir ((tag, operations) # rest) w =
     (case renderAndWrite E tmpl
             (JObj [(''tag'', JStr tag), (''operations'', JArr (map memberContext operations))])
             (pathJoin E apisDir (toLowerCase E tag @ ''.py''))
             (''Error generating routes for tag '' @ tag @ '': '')
             (logMessage ''DEBUG'' (''Rendering api_routes for tag: '' @ tag) w) of
        (Some e, w') \<Rightarrow> (Some e, w')
      | (None, w') \<Rightarrow> generateRoutes E tmpl apisDir rest w')"

definition newline :: string where
  "newline = [CHR 0x0A]"

definition aggregatorContent :: "env \<Rightarrow> string list \<Rightarrow> string" where
  "aggregatorContent E tags =
     ''from fastapi import APIRouter'' @ newline @ newline @ ''router = APIRouter()'' @ newline
     @ concat (map (\<lambda>tag. ''from .'' @ toLowerCase E tag @ '' import router as ''
                            @ toLowerCase E tag @ ''_router'' @ newline) tags)
     @ newline
     @ concat (map (\<lambda>tag. ''router.include_router('' @ toLowerCase E tag @ ''_router)''
                            @ newline) tags)"

text \<open>
  \<open>generateAggregatorFile\<close>: nothing but a diagnostic when there is no group; otherwise
  the file \<open>__init__.py\<close> is written, with no \<open>try\<close> block of its own around the write.
\<close>

definition generateAggregatorFile :: "env \<Rightarrow> string \<Rightarrow> groupMember list obj \<Rightarrow> world \<Rightarrow> outcome" where
  "generateAggregatorFile E apisDir pathsByTag w =
     (if pathsByTag = []
      then (None, logMessage ''INFO'' ''No tagged paths found. Skipping aggregator file.'' w)
      else (let w1 = logMessage ''INFO'' ''Generating aggregator file for multiple tags...'' w
            in case writeFileSync E (pathJoin E apisDir ''__init__.py'')
                      (aggregatorContent E (map fst pathsByTag)) w1 of
                 Inl e \<Rightarrow> (Some e, w1)
               | Inr w2 \<Rightarrow> (None, w2)))"

definition generateApis ::
  "env \<Rightarrow> (string \<Rightarrow> template option) \<Rightarrow> json \<Rightarrow> string \<Rightarrow> world \<Rightarrow> outcome" where
  "generateApis E templates api apisDir w =
     (case (if truthy (fld api ''paths'') then templates ''api_routes'' else None) of
        None \<Rightarrow>
          (None, logMessage ''INFO'' ''No paths or no api_routes template. Skipping routes.'' w)
      | Some tmpl \<Rightarrow>
          (let w1 = logMessage ''INFO'' ''Generating route files...'' w
           in case groupOperations (fld api ''paths'') of
                Inl e \<Rightarrow> (Some e, w1)
              | Inr pathsByTag \<Rightarrow>
                  (case generateRoutes E tmpl apisDir pathsByTag w1 of
                     (Some e, w2) \<Rightarrow> (Some e, w2)
                   | (None, w2) \<Rightarrow> generateAggregatorFile E apisDir pathsByTag w2)))"

text \<open>The statements of \<open>generate\<close> after the templates are loaded.\<close>

definition generateArtifacts ::
  "env \<Rightarrow> (string \<Rightarrow> template option) \<Rightarrow> nat \<Rightarrow> json \<Rightarrow> string \<Rightarrow> world \<Rightarrow> outcome" where
  "generateArtifacts E templates n api outputDir w =
     (case generateTopLevel E templates ''main'' ''main.py'' api outputDir w of
        (Some e, w1) \<Rightarrow> (Some e, w1)
      | (None, w1) \<Rightarrow>
     (case generateTopLevel E templates ''requirements'' ''requirements.txt'' api outputDir w1 of
        (Some e, w2) \<Rightarrow> (Some e, w2)
      | (None, w2) \<Rightarrow>
     (case generateTopLevel E templates ''README'' ''README.md'' api outputDir w2 of
        (Some e, w3) \<Rightarrow> (Some e, w3)
      | (None, w3) \<Rightarrow>
     (case componentsOf api of
        Inl e \<Rightarrow> (Some e, w3)
      | Inr components \<Rightarrow>
     (case generateSchemas E templates n components (pathJoin E outputDir ''models'')
             components w3 of
        (Some e, w4) \<Rightarrow> (Some e, w4)
      | (None, w4) \<Rightarrow>
     (case generateApis E templates api (pathJoin E outputDir ''apis'') w4 of
        (Some e, w5) \<Rightarrow> (Some e, w5)
      | (None, w5) \<Rightarrow>
          (None, logMessage ''INFO'' ''Python FastAPI Code Generation complete.'' w5)))))))"

text \<open>The body of the outer \<open>try\<close> block of \<open>generate\<close>.\<close>

definition generateBody :: "env \<Rightarrow> nat \<Rightarrow> json \<Rightarrow> string \<Rightarrow> world \<Rightarrow> outcome" where
  "generateBody E n api outputDir w =
     (let w1 = logMessage ''INFO'' ''Starting generation process...'' w
      in case ensureOutputDir E outputDir w1 of
           Inl e \<Rightarrow> (Some e, w1)
         | Inr w2 \<Rightarrow>
      (case ensureOutputDir E (pathJoin E outputDir ''models'') w2 of
           Inl e \<Rightarrow> (Some e, w2)
         | Inr w3 \<Rightarrow>
      (case ensureOutputDir E (pathJoin E outputDir ''apis'') w3 of
           Inl e \<Rightarrow> (Some e, w3)
         | Inr w4 \<Rightarrow>
      (case loadTemplates E of
           Inl e \<Rightarrow>
             (Some e, logMessage ''ERROR'' (''Failed to load templates: '' @ errorText E e) w4)
         | Inr templates \<Rightarrow>
             generateArtifacts E templates n api outputDir
               (logMessage ''INFO'' ''Templates loaded successfully.'' w4)))))"

text \<open>
  \<open>generate\<close>: the body, and the outer handler that logs the failure and throws the error
  again. The result \<open>(Some e, w)\<close> is the run that rejects with \<open>e\<close> and leaves \<open>w\<close>;
  \<open>(None, w)\<close> is the run that completes. The second argument is the room of the call
  stack, as in \<open>generateSchema\<close>.
\<close>

definition generate :: "env \<Rightarrow> nat \<Rightarrow> json \<Rightarrow> string \<Rightarrow> world \<Rightarrow> outcome" where
  "generate E n api outputDir w =
     (case generateBody E n api outputDir w of
        (None, w') \<Rightarrow> (None, w')
      | (Some e, w') \<Rightarrow>
          (Some e, logMessage ''ERROR'' (''Generation failed: '' @ errorText E e) w'))"

section \<open>Vocabulary of the statements about the pipeline\<close>

text \<open>
  From one world to a later one nothing is taken back: the files written, the directories
  made and the diagnostics logged before are all still there, in order.
\<close>

definition onlyGrows :: "world \<Rightarrow> world \<Rightarrow> bool" where
  "onlyGrows w w' =
     (prefix (written w) (written w') \<and> prefix (madeDirs w) (madeDirs w')
      \<and> prefix (logged w) (logged w'))"

text \<open>
  An error-level diagnostic of the world contains the given name: the test for a
  diagnostic that identifies an artifact, by the name of its schema, by its tag or by the
  name of its file.
\<close>

definition mentions :: "string \<Rightarrow> world \<Rightarrow> bool" where
  "mentions name w =
     list_ex (\<lambda>(level, message). level = ''ERROR'' \<and> includesStr message name) (logged w)"

text \<open>
  The texts with which the handlers around the single artifacts start their diagnostic,
  and a failure whose last diagnostic is the one of such a handler.
\<close>

definition handlerText :: "string \<Rightarrow> bool" where
  "handlerText d =
     (d = ''Error generating main.py: '' \<or> d = ''Error generating requirements.txt: ''
      \<or> d = ''Error generating README.md: '' \<or> d = ''Error generating oneOf union model: ''
      \<or> (\<exists>name. d = ''Error generating model for '' @ name @ '': '')
      \<or> (\<exists>name. d = ''Error generating empty model for '' @ name @ '': '')
      \<or> (\<exists>tag. d = ''Error generating routes for tag '' @ tag @ '': ''))"

definition handled :: "env \<Rightarrow> error \<Rightarrow> world \<Rightarrow> bool" where
  "handled E e w =
     (\<exists>before d. handlerText d \<and> logged w = before @ [(''ERROR'', d @ errorText E e)])"

text \<open>
  How a failing run of the body of \<open>generate\<close> can end: with the diagnostic of the handler
  of an artifact; with a \<open>TypeError\<close>, a \<open>RangeError\<close> or the failure to make a directory,
  which have no diagnostic of their own; with the diagnostic of the failure to load the
  templates; or with the failure to write the aggregator file, logged only as the start of
  that step.
\<close>

definition explained :: "env \<Rightarrow> error \<Rightarrow> world \<Rightarrow> bool" where
  "explained E e w =
     (handled E e w \<or> e = TypeError \<or> e = RangeError \<or> (\<exists>shown. e = DirFailure shown)
      \<or> (loadTemplates E = Inl e
          \<and> (\<exists>before. logged w =
                 before @ [(''ERROR'', ''Failed to load templates: '' @ errorText E e)]))
      \<or> ((\<exists>shown. e = WriteFailure shown)
          \<and> (\<exists>before. logged w =
                 before @ [(''INFO'', ''Generating aggregator file for multiple tags...'')])))"

text \<open>
  Runs for the evaluation of the pipeline, on a file system that has none of the output
  directories yet. In the first, the templates are \<open>main\<close> and \<open>one_of_union\<close>, the render
  function of \<open>one_of_union\<close> throws, and the description has one schema, the union \<open>Pet\<close>.
  In the second, the only template is \<open>api_routes\<close>, every write succeeds but the write of
  the aggregator file, which fails with an error of the given text, and the description
  has one tagged operation.
\<close>

definition asciiLower :: "string \<Rightarrow> string" where
  "asciiLower s = map (\<lambda>c. if 65 \<le> (of_char c :: nat) \<and> (of_char c :: nat) \<le> 90
                            then char_of ((of_char c :: nat) + 32) else c) s"

definition union_failing_templates :: "string \<Rightarrow> template option" where
  "union_failing_templates name =
     (if name = ''main'' then Some (\<lambda>ctx. Inr ''# main'')
      else if name = ''one_of_union''
      then Some (\<lambda>ctx. Inl (RenderFailure ''Error: The partial header could not be found''))
      else None)"

definition union_failing_env :: env where
  "union_failing_env =
     \<lparr> pathJoin = (\<lambda>a b. a @ ''/'' @ b),
       toLowerCase = asciiLower,
       existsSync = (\<lambda>w p. False),
       mkdirError = (\<lambda>w p. None),
       writeError = (\<lambda>w p content. None),
       loadTemplates = Inr union_failing_templates,
       typeErrorMessage = [] \<rparr>"

definition union_api :: json where
  "union_api =
     JObj [(''components'', JObj [(''schemas'', JObj [(''Pet'',
        JObj [(''oneOf'', JArr [JObj [(''$ref'', JStr ''#/components/schemas/Cat'')],
                                JObj [(''$ref'', JStr ''#/components/schemas/Dog'')]])])])])]"

definition routes_only_templates :: "string \<Rightarrow> template option" where
  "routes_only_templates name =
     (if name = ''api_routes'' then Some (\<lambda>ctx. Inr ''# routes'') else None)"

definition aggregator_failing_env :: "string \<Rightarrow> env" where
  "aggregator_failing_env shown =
     \<lparr> pathJoin = (\<lambda>a b. a @ ''/'' @ b),
       toLowerCase = asciiLower,
       existsSync = (\<lambda>w p. False),
       mkdirError = (\<lambda>w p. None),
       writeError = (\<lambda>w p content. if p = ''out/apis/__init__.py'' then Some shown else None),
       loadTemplates = Inr routes_only_templates,
       typeErrorMessage = [] \<rparr>"

definition pets_api :: json where
  "pets_api = JObj [(''paths'', JObj [(''/pets'', JObj [(''get'', JObj [(''tags'', JArr [JStr ''pets''])])])])]"

definition emptyWorld :: world where
  "emptyWorld = \<lparr> written = [], madeDirs = [], logged = [] \<rparr>"

text \<open>The world the first of these runs leaves.\<close>

definition union_failing_world :: world where
  "union_failing_world =
     \<lparr> written = [(''out/main.py'', ''# main'')],
       madeDirs = [''out'', ''out/models'', ''out/apis''],
       logged = [(''INFO'', ''Starting generation process...''),
                 (''INFO'', ''Templates loaded successfully.''),
                 (''INFO'', ''Generating main.py...''),
                 (''DEBUG'', ''Processing schema: Pet...''),
                 (''DEBUG'', ''Converting oneOf to a union marker...''),
                 (''DEBUG'', ''Detected oneOf union in schema: Pet''),
                 (''ERROR'', ''Error generating oneOf union model: Error: The partial header could not be found''),
                 (''ERROR'', ''Generation failed: Error: The partial header could not be found'')] \<rparr>"

section \<open>Inputs of the examples\<close>

text \<open>
  The nodes, property lists and paths mappings at which the statements below are
  evaluated.
\<close>

definition both_schema :: json where
  "both_schema =
     JObj [(''allOf'', JArr [JObj [(''properties'', JObj [(''a'', JObj [(''type'', JStr ''string'')])])]]),
           (''oneOf'', JArr [JObj [(''$ref'', JStr ''#/components/schemas/Foo'')],
                             JObj [(''$ref'', JStr ''#/components/schemas/Bar'')]])]"

definition nested_both_schema :: json where
  "nested_both_schema = JObj [(''allOf'', JArr [both_schema])]"

definition union_only_member :: json where
  "union_only_member = JObj [(''oneOf'', JArr [JObj [(''$ref'', JStr ''#/components/schemas/Foo'')], JObj []])]"

definition scenario_paths :: json where
  "scenario_paths =
     JObj [(''/pets'', JObj [(''get'', JObj [(''tags'', JArr [JStr ''pets''])]),
                             (''post'', JObj [(''tags'', JArr [JStr ''pets''])])]),
           (''/users'', JObj [(''get'', JObj [(''tags'', JArr [JStr ''users''])])])]"

definition path_parameters_paths :: json where
  "path_parameters_paths =
     JObj [(''/pets/{id}'',
            JObj [(''parameters'', JArr [JObj [(''name'', JStr ''id''), (''in'', JStr ''path'')]]),
                  (''get'', JObj [(''tags'', JArr [JStr ''pets''])])])]"

definition colliding_properties :: "json obj" where
  "colliding_properties =
     [(''a-b'', JObj [(''type'', JStr ''string'')]), (''a_b'', JObj [(''type'', JStr ''integer'')])]"

text \<open>A schema that refers to itself: \<open>A\<close> is the composition of \<open>A\<close>.\<close>

definition cycle_schema :: json where
  "cycle_schema = JObj [(''allOf'', JArr [JObj [(''$ref'', JStr ''#/components/schemas/A'')]])]"

definition cycle_components :: "json obj" where
  "cycle_components = [(''A'', cycle_schema)]"

section \<open>Properties of the name sanitizer\<close>

lemma isWordChar_underscore: "isWordChar CHR ''_''"
  by (simp add: isWordChar_def)

lemma not_digit_underscore: "\<not> isDigit CHR ''_''"
  by (simp add: isDigit_def)

lemma replaceNonWord_word: "c \<in> set (replaceNonWord s) \<Longrightarrow> isWordChar c"
  unfolding replaceNonWord_def using isWordChar_underscore by (auto split: if_splits)

lemma replaceNonWord_id: "\<forall>c \<in> set s. isWordChar c \<Longrightarrow> replaceNonWord s = s"
  by (induction s) (simp_all add: replaceNonWord_def)

lemma reserved_ends:
  "\<forall>w \<in> set PYTHON_RESERVED_WORDS. w \<noteq> [] \<and> last w \<noteq> CHR ''_'' \<and> hd w \<noteq> CHR ''_''"
  by (simp add: PYTHON_RESERVED_WORDS_def)

lemma snoc_underscore_not_reserved: "s @ ''_'' \<notin> set PYTHON_RESERVED_WORDS"
proof
  assume "s @ ''_'' \<in> set PYTHON_RESERVED_WORDS"
  with reserved_ends have "last (s @ ''_'') \<noteq> CHR ''_''" by blast
  then show False by simp
qed

lemma cons_underscore_not_reserved: "CHR ''_'' # s \<notin> set PYTHON_RESERVED_WORDS"
proof
  assume "CHR ''_'' # s \<in> set PYTHON_RESERVED_WORDS"
  with reserved_ends have "hd (CHR ''_'' # s) \<noteq> CHR ''_''" by blast
  then show False by simp
qed

lemma sanitizeName_word: "\<forall>c \<in> set (sanitizeName x). isWordChar c"
  using replaceNonWord_word [of _ x] isWordChar_underscore
  by (auto simp: sanitizeName_def Let_def)

lemma sanitizeName_not_digit: "\<not> startsWithDigit (sanitizeName x)"
  by (simp add: sanitizeName_def Let_def not_digit_underscore)

lemma sanitizeName_not_reserved: "sanitizeName x \<notin> set PYTHON_RESERVED_WORDS"
  using snoc_underscore_not_reserved cons_underscore_not_reserved
  by (simp add: sanitizeName_def Let_def)

lemma sanitizeName_fixed:
  assumes "\<forall>c \<in> set s. isWordChar c" "s \<notin> set PYTHON_RESERVED_WORDS" "\<not> startsWithDigit s"
  shows "sanitizeName s = s"
  using assms by (simp add: sanitizeName_def Let_def replaceNonWord_id)

text \<open>
  C4. For every string \<open>x\<close>, \<open>sanitizeName\<close> returns a string (it is a total function),
  sanitizing twice is the same as sanitizing once, the result never starts with a digit
  and it is never a word of the reserved-word set.
\<close>

theorem sanitizeName_idempotent_safe:
  "sanitizeName (sanitizeName x) = sanitizeName x
   \<and> \<not> startsWithDigit (sanitizeName x)
   \<and> sanitizeName x \<notin> set PYTHON_RESERVED_WORDS"
  using sanitizeName_fixed [OF sanitizeName_word sanitizeName_not_reserved sanitizeName_not_digit]
        sanitizeName_not_digit sanitizeName_not_reserved
  by blast

section \<open>Properties of the type mapper\<close>

lemma lastSegment_example: "lastSegment ''#/components/schemas/Pet'' = ''Pet''"
  by (simp add: lastSegment_def)

lemma sanitizeName_Pet: "sanitizeName ''Pet'' = ''Pet''"
  by code_simp

text \<open>
  C5 (as amended). For every kind, format and items: when \<open>ref\<close> is a non-empty string the
  result is the sanitized last path segment of \<open>ref\<close>, whatever the other three arguments
  are; when both \<open>ref\<close> and the kind are absent the result is the token \<open>Any\<close>.
\<close>

theorem getPythonType_ref_wins:
  "(r \<noteq> [] \<longrightarrow>
      getPythonType openapiType format items (JStr r) = Inr (sanitizeName (lastSegment r)))
   \<and> getPythonType JUndef format items JUndef = Inr ''Any''"
  by (simp add: getPythonType.simps)

theorem getPythonType_ref_wins_witness:
  "''#/components/schemas/Pet'' \<noteq> []
   \<and> getPythonType (JStr ''integer'') (JStr ''int32'') JUndef
         (JStr ''#/components/schemas/Pet'') = Inr ''Pet''"
  using getPythonType_ref_wins
          [of "''#/components/schemas/Pet''" "JStr ''integer''" "JStr ''int32''" JUndef]
  by (simp add: lastSegment_example sanitizeName_Pet)

text \<open>
  The claim as the specification words it (a reference that is present always wins) fails
  for the reference that is present and empty: \<open>if (ref)\<close> is false on the empty string, and
  the kind decides.
\<close>

theorem getPythonType_empty_ref_counterexample:
  "getPythonType (JStr ''integer'') JUndef JUndef (JStr '''') = Inr ''int''
   \<and> getPythonType (JStr ''integer'') JUndef JUndef (JStr '''')
       \<noteq> Inr (sanitizeName (lastSegment ''''))"
  by (simp add: getPythonType.simps lastSegment_def sanitizeName_def replaceNonWord_def
        PYTHON_RESERVED_WORDS_def)

section \<open>Properties of object updates\<close>

lemma set_insertKey: "set (insertKey k v kvs) = insert (k, v) (set kvs)"
  by (induction kvs) (auto split: if_splits)

lemma map_of_insertKey:
  "map_of kvs k = None \<Longrightarrow>
   map_of (insertKey k v kvs) x = (if x = k then Some v else map_of kvs x)"
  by (induction kvs) (auto split: if_splits)

lemma distinct_insertKey:
  "distinct (map fst kvs) \<Longrightarrow> k \<notin> fst ` set kvs \<Longrightarrow> distinct (map fst (insertKey k v kvs))"
  by (induction kvs) (auto simp: set_insertKey)

lemma keys_replaceKey: "map fst (replaceKey k v kvs) = map fst kvs"
  by (induction kvs) auto

lemma map_of_replaceKey:
  "map_of (replaceKey k v kvs) x = (if x = k \<and> map_of kvs k \<noteq> None then Some v else map_of kvs x)"
  by (induction kvs) auto

lemma map_of_objSet: "map_of (objSet kvs k v) = (map_of kvs)(k \<mapsto> v)"
  by (auto simp: objSet_def fun_eq_iff map_of_insertKey map_of_replaceKey)

lemma keys_objSet: "fst ` set (objSet kvs k v) = insert k (fst ` set kvs)"
proof -
  have "dom (map_of (objSet kvs k v)) = insert k (dom (map_of kvs))"
    by (simp add: map_of_objSet)
  then show ?thesis by (simp add: dom_map_of_conv_image_fst)
qed

lemma distinct_objSet: "distinct (map fst kvs) \<Longrightarrow> distinct (map fst (objSet kvs k v))"
  by (auto simp: objSet_def keys_replaceKey map_of_eq_None_iff intro: distinct_insertKey)

lemma objSet_existing_head: "objSet ((k, v') # kvs) k v = (k, v) # replaceKey k v kvs"
  by (simp add: objSet_def)

lemma replaceKey_absent: "k \<notin> fst ` set kvs \<Longrightarrow> replaceKey k v kvs = kvs"
  by (induction kvs) auto









section \<open>Properties of the schema resolver\<close>

lemma field_Inr: "field v k = Inr x \<Longrightarrow> x = fld v k \<and> v \<noteq> JUndef \<and> v \<noteq> JNull"
  by (cases v) auto

lemma field_defined: "v \<noteq> JUndef \<Longrightarrow> v \<noteq> JNull \<Longrightarrow> field v k = Inr (fld v k)"
  by (cases v) auto

lemma fld_accumulator:
  "fld (JObj (accumulator ps req)) ''properties'' = JObj ps"
  "fld (JObj (accumulator ps req)) ''required'' = JArr req"
  "fld (JObj (accumulator ps req)) ''type'' = JStr ''object''"
  "fld (JObj (accumulator ps req)) ''xOneOfUnion'' = JUndef"
  by (simp_all add: accumulator_def)

lemma objSet_accumulator:
  "objSet (accumulator ps req) ''properties'' (JObj ps') = accumulator ps' req"
  "objSet (accumulator ps req) ''required'' (JArr req') = accumulator ps req'"
  by (simp_all add: accumulator_def objSet_def)

lemma mergeInto_accumulator:
  assumes "r \<noteq> JUndef" "r \<noteq> JNull" "memberRequired r = Some names"
  shows "mergeInto (accumulator ps req) r =
           Inr (accumulator
                  (if truthy (fld r ''properties'') then spread2 (JObj ps) (fld r ''properties'') else ps)
                  (if truthy (fld r ''required'') then uniqueValues (req @ names) else req))"
  using assms
  by (auto simp: mergeInto_def field_defined fld_accumulator objSet_accumulator Let_def memberRequired_def
      simp del: fld.simps split: if_splits)


lemma resolved_defined: "mergeComplexSchema n target components = Some (Inr r) \<Longrightarrow> r \<noteq> JUndef \<and> r \<noteq> JNull"
  by (cases n; cases target) (auto split: if_splits option.splits sum.splits json.splits)









lemma map_of_removeKey: "k' \<noteq> k \<Longrightarrow> map_of (removeKey k kvs) k' = map_of kvs k'"
  by (induction kvs) (auto simp: removeKey_def)

lemma mergeAllOf_accumulator:
  "mergeAllOf n subs (accumulator ps req) components = Some (Inr merged) \<Longrightarrow>
   \<exists>ps' req'. merged = accumulator ps' req'"
proof (induction subs arbitrary: ps req)
  case Nil
  then show ?case by auto
next
  case (Cons sub subs)
  from Cons.prems obtain target r merged1 where
    t: "memberTarget components sub = Inr target"
    and m: "mergeComplexSchema n target components = Some (Inr r)"
    and i: "mergeInto (accumulator ps req) r = Inr merged1"
    and rest: "mergeAllOf n subs merged1 components = Some (Inr merged)"
    by (auto split: sum.splits option.splits)
  from resolved_defined [OF m] have rd: "r \<noteq> JUndef" "r \<noteq> JNull" by simp_all
  have "memberRequired r \<noteq> None"
  proof
    assume "memberRequired r = None"
    then have "mergeInto (accumulator ps req) r = Inl TypeError"
      using rd
      by (auto simp: mergeInto_def field_defined memberRequired_def Let_def fld_accumulator
            objSet_accumulator simp del: fld.simps split: if_splits)
    with i show False by simp
  qed
  then obtain names where "memberRequired r = Some names" by auto
  from mergeInto_accumulator [OF rd this, of ps req] i
  obtain ps1 req1 where "merged1 = accumulator ps1 req1" by auto
  with rest Cons.IH show ?case by blast
qed

text \<open>
  C1 (as amended). A node whose \<open>allOf\<close> is truthy is resolved as a composition, whether
  or not it also declares \<open>oneOf\<close>: \<open>mergeComplexSchema\<close> tests \<open>schema.allOf\<close> first and
  returns from that branch. The outcome is that of the same node without its \<open>oneOf\<close>
  (the \<open>oneOf\<close> members are ignored), and a result, when there is one, is the merged
  object accumulator and never a union marker.
\<close>

theorem allOf_takes_precedence:
  assumes "truthy (fld (JObj kvs) ''allOf'')"
  shows "mergeComplexSchema n (JObj kvs) components
           = mergeComplexSchema n (JObj (removeKey ''oneOf'' kvs)) components
         \<and> (\<forall>r. mergeComplexSchema n (JObj kvs) components = Some (Inr r) \<longrightarrow>
               (\<exists>ps req. r = JObj (accumulator ps req)) \<and> fld r ''xOneOfUnion'' = JUndef)"
proof (cases n)
  case 0
  then show ?thesis by simp
next
  case (Suc m)
  have same: "fld (JObj (removeKey ''oneOf'' kvs)) ''allOf'' = fld (JObj kvs) ''allOf''"
    by (simp add: map_of_removeKey)
  have eq: "mergeComplexSchema n (JObj kvs) components
           = mergeComplexSchema n (JObj (removeKey ''oneOf'' kvs)) components"
    using assms unfolding Suc mergeComplexSchema.simps field.simps same by simp
  have shape: "(\<exists>ps req. r = JObj (accumulator ps req)) \<and> fld r ''xOneOfUnion'' = JUndef"
    if r: "mergeComplexSchema n (JObj kvs) components = Some (Inr r)" for r
  proof -
    from r assms obtain subs merged where
      "mergeAllOf m subs emptyMerged components = Some (Inr merged)" and rm: "r = JObj merged"
      unfolding Suc by (auto split: option.splits sum.splits simp del: fld.simps)
    then obtain ps req where "merged = accumulator ps req"
      unfolding emptyMerged_def using mergeAllOf_accumulator by blast
    with rm show ?thesis by (auto simp: fld_accumulator simp del: fld.simps)
  qed
  from eq shape show ?thesis by blast
qed

lemma both_schema_result:
  "mergeComplexSchema 2 both_schema [] =
     Some (Inr (JObj (accumulator [(''a'', JObj [(''type'', JStr ''string'')])] [])))"
  by (simp add: numeral_2_eq_2 both_schema_def emptyMerged_def accumulator_def memberTarget_def
        mergeInto_def spread2_def objSet_def isArrayIndex_def isDigit_def)

text \<open>A node that declares both compositions, at which the hypothesis holds.\<close>

theorem allOf_takes_precedence_witness:
  "truthy (fld both_schema ''allOf'')
   \<and> mergeComplexSchema 2 both_schema []
       = mergeComplexSchema 2
           (JObj [(''allOf'', JArr [JObj [(''properties'', JObj [(''a'', JObj [(''type'', JStr ''string'')])])]])]) []
   \<and> fld (JObj (accumulator [(''a'', JObj [(''type'', JStr ''string'')])] [])) ''xOneOfUnion'' = JUndef"
  using allOf_takes_precedence [of
      "[(''allOf'', JArr [JObj [(''properties'', JObj [(''a'', JObj [(''type'', JStr ''string'')])])]]),
        (''oneOf'', JArr [JObj [(''$ref'', JStr ''#/components/schemas/Foo'')],
                          JObj [(''$ref'', JStr ''#/components/schemas/Bar'')]])]" 2 "[]"]
        both_schema_result
  by (simp add: both_schema_def removeKey_def accumulator_def)

text \<open>
  The claim as the specification words it (a node with both \<open>oneOf\<close> and \<open>allOf\<close> becomes a
  union over the \<open>oneOf\<close> members) fails on such a node: the result is the merged object
  of the \<open>allOf\<close> member, not the union marker \<open>[Foo, Bar]\<close>.
\<close>

theorem union_precedence_counterexample:
  "truthy (fld both_schema ''allOf'') \<and> truthy (fld both_schema ''oneOf'')
   \<and> mergeComplexSchema 2 both_schema [] =
       Some (Inr (JObj (accumulator [(''a'', JObj [(''type'', JStr ''string'')])] [])))
   \<and> mergeComplexSchema 2 both_schema [] \<noteq>
       Some (Inr (JObj [(''xOneOfUnion'', JArr [JStr ''Foo'', JStr ''Bar''])]))"
  by (simp add: both_schema_result) (simp add: both_schema_def accumulator_def)

lemma mergeInto_union_marker:
  "mergeInto merged (JObj [(''xOneOfUnion'', v)]) = Inr merged"
  by (simp add: mergeInto_def)

text \<open>
  C10 (as amended). Let \<open>target\<close> be the schema an \<open>allOf\<close> member stands for (the target
  of its reference when it has one, the member itself otherwise), and let \<open>target\<close> declare
  a truthy \<open>oneOf\<close> and no truthy \<open>allOf\<close>. Then the member contributes nothing: when the
  \<open>oneOf\<close> list maps to member names, the target resolves to a union marker, which has no
  properties and no required names, \<open>mergeInto\<close> leaves the accumulator as it is and the
  merge goes on with the remaining members; when the \<open>oneOf\<close> list cannot be mapped, the
  merge throws that error.
\<close>

theorem union_member_dropped:
  assumes "memberTarget components sub = Inr target"
      and "\<not> truthy (fld target ''allOf'')"
      and "truthy (fld target ''oneOf'')"
  shows "mergeAllOf (Suc n) (sub # subs) merged components =
           (case (case fld target ''oneOf'' of JArr ms \<Rightarrow> unionMembers ms | _ \<Rightarrow> Inl TypeError) of
              Inl e \<Rightarrow> Some (Inl e)
            | Inr names \<Rightarrow> mergeAllOf (Suc n) subs merged components)
         \<and> (\<forall>r. mergeComplexSchema (Suc n) target components = Some (Inr r) \<longrightarrow>
               (\<exists>names. r = JObj [(''xOneOfUnion'', JArr (map JStr names))])
               \<and> memberProperties r = [] \<and> memberRequired r = Some []
               \<and> mergeInto merged r = Inr merged)"
proof -
  from assms(3) have d: "target \<noteq> JUndef" "target \<noteq> JNull" by auto
  have r: "mergeComplexSchema (Suc n) target components =
        (case (case fld target ''oneOf'' of JArr ms \<Rightarrow> unionMembers ms | _ \<Rightarrow> Inl TypeError) of
           Inl e \<Rightarrow> Some (Inl e)
         | Inr names \<Rightarrow> Some (Inr (JObj [(''xOneOfUnion'', JArr (map JStr names))])))"
    using assms(2,3) d
    by (simp add: field_defined del: fld.simps split: json.splits sum.splits)
  have 1: "mergeAllOf (Suc n) (sub # subs) merged components =
           (case (case fld target ''oneOf'' of JArr ms \<Rightarrow> unionMembers ms | _ \<Rightarrow> Inl TypeError) of
              Inl e \<Rightarrow> Some (Inl e)
            | Inr names \<Rightarrow> mergeAllOf (Suc n) subs merged components)"
    by (simp add: assms(1) r mergeInto_union_marker del: mergeComplexSchema.simps fld.simps
          split: sum.splits)
  have 2: "(\<exists>names. r' = JObj [(''xOneOfUnion'', JArr (map JStr names))])
               \<and> memberProperties r' = [] \<and> memberRequired r' = Some []
               \<and> mergeInto merged r' = Inr merged"
    if "mergeComplexSchema (Suc n) target components = Some (Inr r')" for r'
    using that unfolding r
    by (auto simp: mergeInto_union_marker memberProperties_def memberRequired_def split: sum.splits)
  from 1 2 show ?thesis by blast
qed

lemma nested_both_result:
  "mergeComplexSchema 3 nested_both_schema [] =
     Some (Inr (JObj (accumulator [(''a'', JObj [(''type'', JStr ''string'')])] [])))"
  by (simp add: numeral_3_eq_3 nested_both_schema_def both_schema_def emptyMerged_def
        accumulator_def memberTarget_def mergeInto_def spread2_def objSet_def uniqueValues_def
        isArrayIndex_def isDigit_def)

text \<open>
  The claim as written (any member that declares a \<open>oneOf\<close> contributes nothing) fails
  for a member that declares \<open>allOf\<close> as well: it resolves to a merged object, and its
  property \<open>a\<close> reaches the merged entity.
\<close>

theorem union_member_counterexample:
  "truthy (fld both_schema ''oneOf'')
   \<and> mergeComplexSchema 3 (JObj [(''allOf'', JArr [both_schema])]) [] =
       Some (Inr (JObj (accumulator [(''a'', JObj [(''type'', JStr ''string'')])] [])))
   \<and> mergeComplexSchema 3 (JObj [(''allOf'', JArr [both_schema])]) [] \<noteq>
       Some (Inr (JObj (accumulator [] [])))"
  using nested_both_result
  by (simp add: nested_both_schema_def) (simp add: both_schema_def accumulator_def)

text \<open>An inline member with a \<open>oneOf\<close> list only, at which the hypotheses hold.\<close>

theorem union_member_dropped_witness:
  "memberTarget [] union_only_member = Inr union_only_member
   \<and> \<not> truthy (fld union_only_member ''allOf'')
   \<and> truthy (fld union_only_member ''oneOf'')
   \<and> mergeAllOf 1 [union_only_member] emptyMerged [] = Some (Inr emptyMerged)
   \<and> mergeComplexSchema 1 union_only_member [] =
        Some (Inr (JObj [(''xOneOfUnion'', JArr [JStr ''Foo'', JStr ''Any''])]))"
proof -
  have t: "memberTarget [] union_only_member = Inr union_only_member"
    by (simp add: memberTarget_def union_only_member_def)
  have a: "\<not> truthy (fld union_only_member ''allOf'')"
    by (simp add: union_only_member_def)
  have b: "truthy (fld union_only_member ''oneOf'')"
    by (simp add: union_only_member_def)
  have names: "unionMembers [JObj [(''$ref'', JStr ''#/components/schemas/Foo'')], JObj []]
               = Inr [''Foo'', ''Any'']"
    by (simp add: unionMember_def lastSegment_def sanitizeName_def replaceNonWord_def
          isWordChar_def isDigit_def PYTHON_RESERVED_WORDS_def)
  have o: "(case fld union_only_member ''oneOf'' of JArr ms \<Rightarrow> unionMembers ms | _ \<Rightarrow> Inl TypeError)
             = Inr [''Foo'', ''Any'']"
    using names by (simp add: union_only_member_def del: unionMembers.simps)
  from union_member_dropped [OF t a b, of 0 "[]" emptyMerged]
  have "mergeAllOf (Suc 0) [union_only_member] emptyMerged [] = mergeAllOf (Suc 0) [] emptyMerged []"
    unfolding o by simp
  then have "mergeAllOf 1 [union_only_member] emptyMerged [] = Some (Inr emptyMerged)"
    by simp
  moreover have "mergeComplexSchema 1 union_only_member [] =
        Some (Inr (JObj [(''xOneOfUnion'', JArr [JStr ''Foo'', JStr ''Any''])]))"
    by (simp add: union_only_member_def names del: unionMembers.simps)
  ultimately show ?thesis using t a b by blast
qed

text \<open>A deeper bound on the nesting never changes an outcome that a smaller bound gives.\<close>

lemma fuel_mono:
  "(mergeComplexSchema n schema components = Some out \<longrightarrow>
      mergeComplexSchema (Suc n) schema components = Some out)
   \<and> (\<forall>subs merged out'. mergeAllOf n subs merged components = Some out' \<longrightarrow>
      mergeAllOf (Suc n) subs merged components = Some out')"
proof (induction n arbitrary: schema out)
  case 0
  have "mergeAllOf (Suc 0) subs merged components = Some out'"
    if "mergeAllOf 0 subs merged components = Some out'" for subs merged out'
    using that
  proof (induction subs arbitrary: merged)
    case Nil
    then show ?case by simp
  next
    case (Cons sub subs)
    then show ?case by (auto split: sum.splits)
  qed
  then show ?case by simp
next
  case (Suc n)
  have B: "mergeComplexSchema (Suc (Suc n)) schema components = Some out"
    if h: "mergeComplexSchema (Suc n) schema components = Some out" for schema out
  proof (cases "field schema ''allOf''")
    case (Inl e)
    from h have "out = Inl e"
      unfolding mergeComplexSchema.simps Inl by simp
    then show ?thesis
      unfolding mergeComplexSchema.simps Inl by simp
  next
    case (Inr allOf)
    show ?thesis
    proof (cases "truthy allOf")
      case True
      show ?thesis
      proof (cases "iterate allOf")
        case None
        from h have "out = Inl TypeError"
          unfolding mergeComplexSchema.simps Inr sum.case using True None by simp
        then show ?thesis
          unfolding mergeComplexSchema.simps Inr sum.case using True None by simp
      next
        case (Some subs)
        from h have h': "(case mergeAllOf n subs emptyMerged components of
                    None \<Rightarrow> None
                  | Some (Inl e) \<Rightarrow> Some (Inl e)
                  | Some (Inr merged) \<Rightarrow> Some (Inr (JObj merged))) = Some out"
          unfolding mergeComplexSchema.simps Inr sum.case using True Some by simp
        then obtain x where
          x: "mergeAllOf n subs emptyMerged components = Some x"
          by (auto split: option.splits)
        with Suc.IH have x': "mergeAllOf (Suc n) subs emptyMerged components = Some x"
          by blast
        from h' have h'': "(case x of Inl e \<Rightarrow> Some (Inl e)
                  | Inr merged \<Rightarrow> Some (Inr (JObj merged))) = Some out"
          unfolding x by simp
        show ?thesis
          unfolding mergeComplexSchema.simps Inr sum.case
          using h'' True Some x' by (simp del: mergeAllOf.simps)
      qed
    next
      case False
      from h show ?thesis
        unfolding mergeComplexSchema.simps Inr sum.case using False by simp
    qed
  qed
  have A: "mergeAllOf (Suc (Suc n)) subs merged components = Some out'"
    if "mergeAllOf (Suc n) subs merged components = Some out'" for subs merged out'
    using that
  proof (induction subs arbitrary: merged)
    case Nil
    then show ?case by simp
  next
    case (Cons sub subs)
    show ?case
    proof (cases "memberTarget components sub")
      case (Inl e)
      with Cons.prems show ?thesis by simp
    next
      case (Inr target)
      from Cons.prems Inr obtain o1 where
        o1: "mergeComplexSchema (Suc n) target components = Some o1"
        by (auto simp del: mergeComplexSchema.simps split: option.splits)
      then have o2: "mergeComplexSchema (Suc (Suc n)) target components = Some o1"
        by (rule B)
      show ?thesis
        using Cons.prems Cons.IH
        unfolding mergeAllOf.simps Inr sum.case o1 o2 option.case
        by (auto split: sum.splits simp del: mergeComplexSchema.simps)
    qed
  qed
  from A B show ?case by blast
qed

section \<open>Properties of the operation grouper\<close>

lemma allMembers_insertKey:
  "mset (allMembers (insertKey k ms g)) = mset (allMembers g) + mset ms"
  by (induction g) (auto simp: allMembers_def)

lemma allMembers_replaceKey:
  "distinct (map fst g) \<Longrightarrow> map_of g k = Some ms \<Longrightarrow>
   mset (allMembers (replaceKey k (ms @ [m]) g)) = mset (allMembers g) + {#m#}"
proof (induction g)
  case Nil
  then show ?case by simp
next
  case (Cons kv g)
  obtain k' v' where kv: "kv = (k', v')" by (cases kv)
  show ?case
  proof (cases "k' = k")
    case True
    with Cons.prems kv have "k \<notin> fst ` set g" "v' = ms" by auto
    then show ?thesis
      using True kv by (simp add: replaceKey_absent allMembers_def)
  next
    case False
    with Cons kv show ?thesis by (simp add: allMembers_def)
  qed
qed

lemma set_replaceKey:
  "distinct (map fst g) \<Longrightarrow> map_of g k = Some old \<Longrightarrow>
   set (replaceKey k v g) = insert (k, v) (set g - {(k, old)})"
proof (induction g)
  case Nil
  then show ?case by simp
next
  case (Cons kv g)
  obtain k' v' where kv: "kv = (k', v')" by (cases kv)
  show ?case
  proof (cases "k' = k")
    case True
    with Cons.prems kv have a: "k \<notin> fst ` set g" "v' = old" by auto
    then have "(k, old) \<notin> set g" by force
    then show ?thesis
      using True kv a by (auto simp: replaceKey_absent)
  next
    case False
    with Cons.prems kv have "distinct (map fst g)" "map_of g k = Some old" by auto
    from Cons.IH [OF this] False kv show ?thesis by auto
  qed
qed

lemma addOperation_invariant:
  assumes "addOperation g tag (p, meth, opn) = Inr g'" "distinct (map fst g)" "filedUnderKey g"
      and "groupKey opn = Inr tag"
  shows "distinct (map fst g') \<and> filedUnderKey g'
         \<and> mset (allMembers g') = mset (allMembers g) + {#(p, meth, opn)#}"
proof (cases "map_of g tag")
  case None
  with assms(1) have g': "g' = insertKey tag [(p, meth, opn)] g"
    by (auto simp: addOperation_def objSet_def split: if_splits)
  from None have notin: "tag \<notin> fst ` set g" by (simp add: map_of_eq_None_iff)
  have "filedUnderKey g'"
    using assms(3,4) unfolding filedUnderKey_def g' list_all_iff set_insertKey by auto
  then show ?thesis
    using assms(2) notin by (simp add: g' distinct_insertKey allMembers_insertKey)
next
  case (Some ms)
  with assms(1) have g': "g' = replaceKey tag (ms @ [(p, meth, opn)]) g"
    by (auto simp: addOperation_def objSet_def)
  from Some have "(tag, ms) \<in> set g" by (rule map_of_SomeD)
  with assms(3) have "list_all (\<lambda>m. groupKey (snd (snd m)) = Inr tag) ms"
    unfolding filedUnderKey_def list_all_iff by auto
  then have "filedUnderKey g'"
    using assms(3,4) unfolding filedUnderKey_def g' list_all_iff set_replaceKey [OF assms(2) Some]
    by auto
  then show ?thesis
    using assms(2) Some by (simp add: g' keys_replaceKey allMembers_replaceKey)
qed

lemma groupMethods_invariant:
  assumes "groupMethods pathUrl methods g = Inr g'" "distinct (map fst g)" "filedUnderKey g"
  shows "distinct (map fst g') \<and> filedUnderKey g'
         \<and> mset (allMembers g') =
             mset (allMembers g)
             + mset (map (\<lambda>(method, operation). (pathUrl, method, operation))
                      (filter (\<lambda>(method, operation). isObjectNode operation) methods))"
  using assms
proof (induction methods arbitrary: g)
  case Nil
  then show ?case by simp
next
  case (Cons mo methods)
  obtain meth opn where mo: "mo = (meth, opn)" by (cases mo)
  show ?case
  proof (cases "isObjectNode opn")
    case False
    with Cons mo show ?thesis by simp
  next
    case True
    with Cons.prems(1) mo obtain tag g1 where
      k: "groupKey opn = Inr tag"
      and a: "addOperation g tag (pathUrl, meth, opn) = Inr g1"
      and r: "groupMethods pathUrl methods g1 = Inr g'"
      by (auto split: sum.splits)
    from addOperation_invariant [OF a Cons.prems(2,3) k]
    have i1: "distinct (map fst g1)" "filedUnderKey g1"
      "mset (allMembers g1) = mset (allMembers g) + {#(pathUrl, meth, opn)#}"
      by simp_all
    from Cons.IH [OF r i1(1,2)] i1(3) True mo show ?thesis by simp
  qed
qed

lemma membersWhere_Cons:
  "membersWhere test ((pathUrl, pathItem) # entries) =
     map (\<lambda>(method, operation). (pathUrl, method, operation))
         (filter (\<lambda>(method, operation). test operation) (ownEntries pathItem))
     @ membersWhere test entries"
  by (simp add: membersWhere_def)

lemma groupPaths_invariant:
  assumes "groupPaths entries g = Inr g'" "distinct (map fst g)" "filedUnderKey g"
  shows "distinct (map fst g') \<and> filedUnderKey g'
         \<and> mset (allMembers g') = mset (allMembers g) + mset (membersWhere isObjectNode entries)"
  using assms
proof (induction entries arbitrary: g)
  case Nil
  then show ?case by (simp add: membersWhere_def)
next
  case (Cons pe entries)
  obtain pathUrl pathItem where pe: "pe = (pathUrl, pathItem)" by (cases pe)
  from Cons.prems(1) pe obtain methods g1 where
    e: "objectEntries pathItem = Inr methods"
    and m: "groupMethods pathUrl methods g = Inr g1"
    and r: "groupPaths entries g1 = Inr g'"
    by (auto split: sum.splits)
  from e have methods: "methods = ownEntries pathItem"
    by (cases pathItem) auto
  from groupMethods_invariant [OF m Cons.prems(2,3)]
  have i1: "distinct (map fst g1)" "filedUnderKey g1"
    "mset (allMembers g1) = mset (allMembers g)
       + mset (map (\<lambda>(method, operation). (pathUrl, method, operation))
                      (filter (\<lambda>(method, operation). isObjectNode operation) methods))"
    by simp_all
  from Cons.IH [OF r i1(1,2)] i1(3) methods pe show ?case
    by (simp add: membersWhere_Cons)
qed

text \<open>
  When the grouping loop returns, the tags of the groups are distinct, the members of all
  groups together are the triples the loop files, each as often as it occurs, and every
  member lies in the group of its own key.
\<close>

lemma grouping_partition:
  assumes "groupOperations paths = Inr groups"
  shows "distinct (map fst groups)
         \<and> mset (allMembers groups) = mset (filedMembers paths)
         \<and> filedUnderKey groups"
proof -
  have "filedUnderKey []" by (simp add: filedUnderKey_def)
  with groupPaths_invariant [of "ownEntries paths" "[]" groups] assms
  show ?thesis
    by (simp add: groupOperations_def filedMembers_def allMembers_def)
qed

text \<open>Without array members in the path items, the loop files the object operations.\<close>

lemma filed_are_objects:
  assumes "noArrayMembers paths"
  shows "filedMembers paths = objectOperations paths"
proof -
  have same: "isObjectNode v = isObject v" if "\<not> isArray v" for v
    using that by (cases v) simp_all
  have "membersWhere isObjectNode entries = membersWhere isObject entries"
    if "list_all (\<lambda>(pathUrl, pathItem). list_all (\<lambda>(method, operation). \<not> isArray operation)
                                         (ownEntries pathItem)) entries"
    for entries
    using that
  proof (induction entries)
    case Nil
    then show ?case by (simp add: membersWhere_def)
  next
    case (Cons pe entries)
    obtain pathUrl pathItem where pe: "pe = (pathUrl, pathItem)" by (cases pe)
    from Cons.prems pe
    have "list_all (\<lambda>(method, operation). \<not> isArray operation) (ownEntries pathItem)"
      by simp
    then have "filter (\<lambda>(method, operation). isObjectNode operation) (ownEntries pathItem)
             = filter (\<lambda>(method, operation). isObject operation) (ownEntries pathItem)"
      by (intro filter_cong) (auto simp: list_all_iff same)
    with Cons pe show ?case by (simp add: membersWhere_Cons)
  qed
  with assms show ?thesis
    by (simp add: noArrayMembers_def filedMembers_def objectOperations_def)
qed

lemma groupKey_absent: "\<not> truthy (fld operation ''tags'') \<Longrightarrow> groupKey operation = Inr ''api''"
  by (simp add: groupKey_def)

lemma groupKey_first: "fld operation ''tags'' = JArr (JStr t # ts) \<Longrightarrow> groupKey operation = Inr t"
  by (simp add: groupKey_def)

text \<open>
  C2. The grouping key of an object operation is the first element of its tag list, and
  the sentinel \<open>api\<close> when the tag list is absent (or otherwise falsy); the two lemmas above
  say so. For the empty tag list the code does not give the sentinel: an empty array is
  truthy, so \<open>operation.tags || ['api']\<close> keeps it, \<open>tags[0]\<close> is \<open>undefined\<close>, and the
  operation is filed under the key \<open>undefined\<close>.
\<close>

theorem empty_tag_list_key:
  "groupKey (JObj [(''tags'', JArr [])]) = Inr ''undefined''
   \<and> groupOperations (JObj [(''/x'', JObj [(''get'', JObj [(''tags'', JArr [])])])])
       = Inr [(''undefined'', [(''/x'', ''get'', JObj [(''tags'', JArr [])])])]"
  by (simp add: groupKey_def groupOperations_def addOperation_def objSet_def
        OBJECT_PROTOTYPE_NAMES_def isArrayIndex_def isDigit_def)

text \<open>
  C7. Operation grouping is not a partition of the object operations for every paths
  mapping. In the mapping below the only operation node, \<open>(/x, get)\<close>, is an object, tagged
  \<open>constructor\<close>. The test \<open>!pathsByTag[tag]\<close> for a missing group reads the member
  \<open>constructor\<close> that the empty \<open>pathsByTag\<close> inherits, so no group is made, the call of
  \<open>push\<close> throws a \<open>TypeError\<close>, and the loop ends without a grouping: the object operation
  is in no group.
\<close>

theorem inherited_tag_throws:
  "objectOperations
        (JObj [(''/x'', JObj [(''get'', JObj [(''tags'', JArr [JStr ''constructor''])])])])
     = [(''/x'', ''get'', JObj [(''tags'', JArr [JStr ''constructor''])])]
   \<and> groupOperations
        (JObj [(''/x'', JObj [(''get'', JObj [(''tags'', JArr [JStr ''constructor''])])])])
     = Inl TypeError"
  by (simp add: objectOperations_def membersWhere_def groupKey_def groupOperations_def
        addOperation_def OBJECT_PROTOTYPE_NAMES_def)

text \<open>
  The loop also files members that are no object operations: its test
  \<open>typeof operation !== 'object'\<close> lets an array pass. The parameters of the path item
  below become a member of the group \<open>api\<close>, next to the one object operation of the
  mapping.
\<close>

lemma path_parameters_filed:
  "objectOperations path_parameters_paths
     = [(''/pets/{id}'', ''get'', JObj [(''tags'', JArr [JStr ''pets''])])]
   \<and> groupOperations path_parameters_paths
     = Inr [(''api'', [(''/pets/{id}'', ''parameters'',
                        JArr [JObj [(''name'', JStr ''id''), (''in'', JStr ''path'')]])]),
            (''pets'', [(''/pets/{id}'', ''get'', JObj [(''tags'', JArr [JStr ''pets''])])])]"
  by (simp add: path_parameters_paths_def objectOperations_def membersWhere_def groupKey_def
        groupOperations_def addOperation_def objSet_def OBJECT_PROTOTYPE_NAMES_def
        isArrayIndex_def isDigit_def)

text \<open>
  The conversion of a tag to a key throws as well: an object tag with an own \<open>toString\<close>
  has no primitive value.
\<close>

lemma object_tag_throws:
  "groupOperations
     (JObj [(''/x'', JObj [(''get'', JObj [(''tags'', JArr [JObj [(''toString'', JNum 1)]])])])])
     = Inl TypeError"
  by (simp add: groupKey_def groupOperations_def)

lemma addOperation_returns:
  "tag \<notin> set OBJECT_PROTOTYPE_NAMES \<Longrightarrow> \<exists>g'. addOperation g tag m = Inr g'"
  by (simp add: addOperation_def split: option.splits)

lemma groupMethods_returns:
  "list_all (\<lambda>(method, operation). isObjectNode operation \<longrightarrow> keyIsOwnName operation) methods \<Longrightarrow>
   \<exists>g'. groupMethods pathUrl methods g = Inr g'"
proof (induction methods arbitrary: g)
  case Nil
  then show ?case by simp
next
  case (Cons mo methods)
  obtain meth opn where mo: "mo = (meth, opn)" by (cases mo)
  show ?case
  proof (cases "isObjectNode opn")
    case False
    with Cons mo show ?thesis by simp
  next
    case True
    with Cons.prems mo obtain tag where
      k: "groupKey opn = Inr tag" and t: "tag \<notin> set OBJECT_PROTOTYPE_NAMES"
      by (auto simp: keyIsOwnName_def split: sum.splits)
    from addOperation_returns [OF t] obtain g1 where
      "addOperation g tag (pathUrl, meth, opn) = Inr g1" by blast
    moreover from Cons.IH [of g1] Cons.prems obtain g' where
      "groupMethods pathUrl methods g1 = Inr g'" by auto
    ultimately show ?thesis using True mo k by simp
  qed
qed

lemma groupPaths_returns:
  assumes "list_all (\<lambda>(pathUrl, pathItem). pathItem \<noteq> JNull \<and> pathItem \<noteq> JUndef) entries"
      and "list_all (\<lambda>m. keyIsOwnName (snd (snd m))) (membersWhere isObjectNode entries)"
  shows "\<exists>g'. groupPaths entries g = Inr g'"
  using assms
proof (induction entries arbitrary: g)
  case Nil
  then show ?case by simp
next
  case (Cons pe entries)
  obtain pathUrl pathItem where pe: "pe = (pathUrl, pathItem)" by (cases pe)
  from Cons.prems(1) pe have "pathItem \<noteq> JNull" "pathItem \<noteq> JUndef" by simp_all
  then have e: "objectEntries pathItem = Inr (ownEntries pathItem)"
    by (cases pathItem) simp_all
  from Cons.prems(2) pe
  have "list_all (\<lambda>m. keyIsOwnName (snd (snd m)))
          (map (\<lambda>(method, operation). (pathUrl, method, operation))
             (filter (\<lambda>(method, operation). isObjectNode operation) (ownEntries pathItem)))"
    by (simp add: membersWhere_Cons)
  then have "list_all (\<lambda>(method, operation). isObjectNode operation \<longrightarrow> keyIsOwnName operation)
               (ownEntries pathItem)"
    unfolding list_all_iff by force
  from groupMethods_returns [OF this] obtain g1 where
    m: "groupMethods pathUrl (ownEntries pathItem) g = Inr g1" by blast
  from Cons.prems pe have
    "list_all (\<lambda>(pathUrl, pathItem). pathItem \<noteq> JNull \<and> pathItem \<noteq> JUndef) entries"
    "list_all (\<lambda>m. keyIsOwnName (snd (snd m))) (membersWhere isObjectNode entries)"
    by (simp_all add: membersWhere_Cons)
  from Cons.IH [OF this, of g1] obtain g' where "groupPaths entries g1 = Inr g'" by blast
  with e m pe show ?case by simp
qed

text \<open>
  Apart from these inputs the loop does partition the object operations. For every paths
  mapping whose path items are not \<open>null\<close> and have no array members, and in which the
  grouping key of every object operation can be computed and names no member inherited
  from \<open>Object.prototype\<close>, the loop returns; the tags of the groups are distinct, the
  members of all groups together are exactly the (path, method, operation) triples whose
  operation is an object, each as often as it occurs, every member lies in the group of its
  own key, and when the (path, method) pairs of the mapping are distinct no pair occurs
  twice among the members of all groups.
\<close>

lemma grouping_is_partition:
  assumes "list_all (\<lambda>(pathUrl, pathItem). pathItem \<noteq> JNull \<and> pathItem \<noteq> JUndef) (ownEntries paths)"
      and "noArrayMembers paths"
      and "list_all (\<lambda>m. keyIsOwnName (snd (snd m))) (objectOperations paths)"
  shows "\<exists>groups. groupOperations paths = Inr groups
           \<and> distinct (map fst groups)
           \<and> mset (allMembers groups) = mset (objectOperations paths)
           \<and> filedUnderKey groups
           \<and> (distinct (map pathMethod (objectOperations paths)) \<longrightarrow>
                distinct (map pathMethod (allMembers groups)))"
proof -
  note same = filed_are_objects [OF assms(2)]
  from assms(3) have "list_all (\<lambda>m. keyIsOwnName (snd (snd m))) (membersWhere isObjectNode (ownEntries paths))"
    using same by (simp add: filedMembers_def)
  from groupPaths_returns [OF assms(1) this, of "[]"]
  obtain groups where g: "groupOperations paths = Inr groups"
    by (auto simp: groupOperations_def)
  from grouping_partition [OF g] same
  have i: "distinct (map fst groups)" "filedUnderKey groups"
    "mset (allMembers groups) = mset (objectOperations paths)"
    by simp_all
  from i(3) have "mset (map pathMethod (allMembers groups)) = mset (map pathMethod (objectOperations paths))"
    by simp
  then have "distinct (map pathMethod (allMembers groups)) \<longleftrightarrow> distinct (map pathMethod (objectOperations paths))"
    by (rule mset_eq_imp_distinct_iff)
  with i g show ?thesis by blast
qed

lemma scenario_paths_groups:
  "groupOperations scenario_paths =
     Inr [(''pets'', [(''/pets'', ''get'', JObj [(''tags'', JArr [JStr ''pets''])]),
                      (''/pets'', ''post'', JObj [(''tags'', JArr [JStr ''pets''])])]),
          (''users'', [(''/users'', ''get'', JObj [(''tags'', JArr [JStr ''users''])])])]"
  by (simp add: scenario_paths_def groupOperations_def groupKey_def addOperation_def objSet_def
        OBJECT_PROTOTYPE_NAMES_def isArrayIndex_def isDigit_def)

text \<open>The route scenario of the specification satisfies the hypotheses.\<close>

lemma scenario_paths_partition:
  "list_all (\<lambda>(pathUrl, pathItem). pathItem \<noteq> JNull \<and> pathItem \<noteq> JUndef) (ownEntries scenario_paths)
   \<and> noArrayMembers scenario_paths
   \<and> list_all (\<lambda>m. keyIsOwnName (snd (snd m))) (objectOperations scenario_paths)
   \<and> distinct (map pathMethod (objectOperations scenario_paths))
   \<and> (\<exists>groups. groupOperations scenario_paths = Inr groups
         \<and> map fst groups = [''pets'', ''users'']
         \<and> distinct (map pathMethod (allMembers groups))
         \<and> mset (allMembers groups) = mset (objectOperations scenario_paths))"
proof -
  have a: "list_all (\<lambda>(pathUrl, pathItem). pathItem \<noteq> JNull \<and> pathItem \<noteq> JUndef) (ownEntries scenario_paths)"
    by (simp add: scenario_paths_def)
  have n: "noArrayMembers scenario_paths"
    by (simp add: scenario_paths_def noArrayMembers_def)
  have b: "list_all (\<lambda>m. keyIsOwnName (snd (snd m))) (objectOperations scenario_paths)"
    by (simp add: scenario_paths_def objectOperations_def membersWhere_def keyIsOwnName_def
          groupKey_def OBJECT_PROTOTYPE_NAMES_def)
  have c: "distinct (map pathMethod (objectOperations scenario_paths))"
    by (simp add: scenario_paths_def objectOperations_def membersWhere_def pathMethod_def)
  from grouping_is_partition [OF a n b] c scenario_paths_groups
  have "\<exists>groups. groupOperations scenario_paths = Inr groups
         \<and> map fst groups = [''pets'', ''users'']
         \<and> distinct (map pathMethod (allMembers groups))
         \<and> mset (allMembers groups) = mset (objectOperations scenario_paths)"
    by auto
  with a n b c show ?thesis by blast
qed

section \<open>Properties of property processing\<close>

lemma find_app:
  "find P (xs @ ys) = (case find P xs of Some y \<Rightarrow> Some y | None \<Rightarrow> find P ys)"
  by (induction xs) auto

lemma find_snoc:
  "find P (xs @ [x]) = (case find P xs of Some y \<Rightarrow> Some y | None \<Rightarrow> if P x then Some x else None)"
  by (simp add: find_app split: option.splits)

lemma lastWithIdentifier_Cons:
  "lastWithIdentifier k ((n, ps) # rest) =
     (case lastWithIdentifier k rest of
        Some y \<Rightarrow> Some y
      | None \<Rightarrow> if sanitizeName n = k then Some (n, ps) else None)"
  by (simp add: lastWithIdentifier_def find_snoc)

lemma map_of_assignProperty:
  "map_of (assignProperty kvs k v) k' =
     (if k' = k \<and> k \<noteq> ''__proto__'' then Some v else map_of kvs k')"
  by (simp add: assignProperty_def map_of_objSet)

lemma distinct_assignProperty:
  "distinct (map fst kvs) \<Longrightarrow> distinct (map fst (assignProperty kvs k v))"
  by (simp add: assignProperty_def distinct_objSet)

lemma processProperties_map:
  assumes "processProperties acc entries = Inr out" "distinct (map fst acc)"
  shows "distinct (map fst out)
         \<and> (\<forall>k. map_of out k =
               (case lastWithIdentifier k entries of
                  None \<Rightarrow> map_of acc k
                | Some (n, ps) \<Rightarrow>
                    if k = ''__proto__'' then map_of acc k
                    else (case processProperty n ps of Inr e \<Rightarrow> Some e | Inl x \<Rightarrow> None)))"
  using assms
proof (induction entries arbitrary: acc)
  case Nil
  then show ?case by (simp add: lastWithIdentifier_def)
next
  case (Cons np rest)
  obtain n ps where np: "np = (n, ps)" by (cases np)
  from Cons.prems(1) np obtain e where
    e: "processProperty n ps = Inr e"
    and r: "processProperties (assignProperty acc (sanitizeName n) e) rest = Inr out"
    by (auto split: sum.splits)
  note ih = Cons.IH [OF r distinct_assignProperty [OF Cons.prems(2)]]
  from ih have d: "distinct (map fst out)" by (rule conjunct1)
  from ih have m: "map_of out k =
               (case lastWithIdentifier k rest of
                  None \<Rightarrow> map_of (assignProperty acc (sanitizeName n) e) k
                | Some (n', ps') \<Rightarrow>
                    if k = ''__proto__'' then map_of (assignProperty acc (sanitizeName n) e) k
                    else (case processProperty n' ps' of Inr e' \<Rightarrow> Some e' | Inl x \<Rightarrow> None))" for k
    by (rule conjunct2 [THEN spec])
  have "map_of out k =
               (case lastWithIdentifier k (np # rest) of
                  None \<Rightarrow> map_of acc k
                | Some (n, ps) \<Rightarrow>
                    if k = ''__proto__'' then map_of acc k
                    else (case processProperty n ps of Inr e \<Rightarrow> Some e | Inl x \<Rightarrow> None))" for k
    unfolding m np lastWithIdentifier_Cons
    by (auto simp: map_of_assignProperty e split: option.splits)
  with d show ?case by blast
qed

lemma processProperty_names:
  "processProperty n ps = Inr e \<Longrightarrow>
   fld e ''originalName'' = JStr n \<and> fld e ''name'' = JStr (sanitizeName n)"
  by (auto simp: processProperty_def split: sum.splits)

lemma find_Some_mem: "find P xs = Some x \<Longrightarrow> x \<in> set xs \<and> P x"
  by (induction xs) (auto split: if_splits)

lemma processProperties_entry:
  assumes "processProperties [] entries = Inr out" "(k, e) \<in> set out"
  shows "\<exists>n ps. lastWithIdentifier k entries = Some (n, ps) \<and> (n, ps) \<in> set entries
           \<and> sanitizeName n = k \<and> processProperty n ps = Inr e \<and> k \<noteq> ''__proto__''"
proof -
  have dn: "distinct (map fst ([] :: json obj))" by simp
  note pm = processProperties_map [OF assms(1) dn]
  from pm have d: "distinct (map fst out)" by (rule conjunct1)
  from pm have "map_of out k =
               (case lastWithIdentifier k entries of
                  None \<Rightarrow> map_of [] k
                | Some (n, ps) \<Rightarrow>
                    if k = ''__proto__'' then map_of [] k
                    else (case processProperty n ps of Inr e \<Rightarrow> Some e | Inl x \<Rightarrow> None))"
    by (rule conjunct2 [THEN spec])
  then have m: "map_of out k =
               (case lastWithIdentifier k entries of
                  None \<Rightarrow> None
                | Some (n, ps) \<Rightarrow>
                    if k = ''__proto__'' then None
                    else (case processProperty n ps of Inr e \<Rightarrow> Some e | Inl x \<Rightarrow> None))"
    by (simp split: option.splits)
  from d assms(2) have "map_of out k = Some e" by simp
  with m obtain n ps where l: "lastWithIdentifier k entries = Some (n, ps)"
    and k: "k \<noteq> ''__proto__''" and p: "processProperty n ps = Inr e"
    by (auto split: option.splits if_splits sum.splits)
  from l have "(n, ps) \<in> set entries \<and> sanitizeName n = k"
    unfolding lastWithIdentifier_def by (auto dest: find_Some_mem)
  with l k p show ?thesis by blast
qed

lemma lastWithIdentifier_last:
  assumes "\<forall>(n, ps) \<in> set after. sanitizeName n \<noteq> sanitizeName n2"
  shows "lastWithIdentifier (sanitizeName n2) (before @ (n2, ps2) # after) = Some (n2, ps2)"
proof -
  have "find (\<lambda>(n, ps). sanitizeName n = sanitizeName n2) (rev after) = None"
    using assms by (auto simp: find_None_iff)
  then show ?thesis
    by (simp add: lastWithIdentifier_def find_app)
qed

text \<open>
  The map of processed properties is keyed by the sanitized name: every entry stands under
  the sanitized form of its original name. When two distinct names \<open>n1\<close>, \<open>n2\<close> of one
  schema, \<open>n1\<close> before \<open>n2\<close> in the order in which \<open>Object.entries\<close> enumerates the
  properties, sanitize to the same identifier, no name after \<open>n2\<close> sanitizes to it and the
  identifier is not \<open>__proto__\<close>, then the entry under that identifier is the one of \<open>n2\<close>,
  and no entry of the map is the one of \<open>n1\<close>.
\<close>

lemma colliding_names_last_wins:
  assumes "processProperties [] entries = Inr out"
      and "distinct (map fst entries)"
      and "entries = before @ (n1, ps1) # middle @ (n2, ps2) # after"
      and "sanitizeName n1 = sanitizeName n2"
      and "list_all (\<lambda>(n, ps). sanitizeName n \<noteq> sanitizeName n2) after"
      and "sanitizeName n2 \<noteq> ''__proto__''"
  shows "(\<exists>e. map_of out (sanitizeName n2) = Some e \<and> fld e ''originalName'' = JStr n2)
         \<and> list_all (\<lambda>(k, e). fld e ''originalName'' \<noteq> JStr n1) out
         \<and> list_all (\<lambda>(k, e). \<exists>n. fld e ''originalName'' = JStr n \<and> k = sanitizeName n) out"
proof -
  from assms(5) have after: "\<forall>(n, ps) \<in> set after. sanitizeName n \<noteq> sanitizeName n2"
    by (simp add: list_all_iff)
  have split: "entries = (before @ (n1, ps1) # middle) @ (n2, ps2) # after"
    using assms(3) by simp
  have last: "lastWithIdentifier (sanitizeName n2) entries = Some (n2, ps2)"
    unfolding split using after by (rule lastWithIdentifier_last)
  from assms(2,3) have ne: "n1 \<noteq> n2" by auto
  have dn: "distinct (map fst ([] :: json obj))" by simp
  from processProperties_map [OF assms(1) dn]
  have "map_of out (sanitizeName n2) =
               (case lastWithIdentifier (sanitizeName n2) entries of
                  None \<Rightarrow> map_of [] (sanitizeName n2)
                | Some (n, ps) \<Rightarrow>
                    if sanitizeName n2 = ''__proto__'' then map_of [] (sanitizeName n2)
                    else (case processProperty n ps of Inr e \<Rightarrow> Some e | Inl x \<Rightarrow> None))"
    by (rule conjunct2 [THEN spec])
  with last assms(6)
  have m: "map_of out (sanitizeName n2) =
             (case processProperty n2 ps2 of Inr e \<Rightarrow> Some e | Inl x \<Rightarrow> None)"
    by simp
  have all_ok: "\<exists>e. processProperty n ps = Inr e" if "(n, ps) \<in> set entries" for n ps
    using assms(1) that
  proof (induction entries arbitrary: out rule: rev_induct)
    case Nil
    then show ?case by simp
  next
    case (snoc x xs)
    have app: "\<And>acc ys zs r. processProperties acc (ys @ zs) = Inr r \<Longrightarrow>
         \<exists>mid. processProperties acc ys = Inr mid \<and> processProperties mid zs = Inr r"
    proof -
      fix acc :: "json obj" and ys zs :: "json obj" and r
      show "processProperties acc (ys @ zs) = Inr r \<Longrightarrow>
         \<exists>mid. processProperties acc ys = Inr mid \<and> processProperties mid zs = Inr r"
        by (induction ys arbitrary: acc) (auto split: sum.splits)
    qed
    from app [OF snoc.prems(1)] obtain mid where
      a: "processProperties [] xs = Inr mid" and b: "processProperties mid [x] = Inr out"
      by blast
    show ?case
    proof (cases "(n, ps) = x")
      case True
      with b show ?thesis by (auto split: sum.splits)
    next
      case False
      with snoc.prems(2) have "(n, ps) \<in> set xs" by auto
      with snoc.IH a show ?thesis by blast
    qed
  qed
  have "(n2, ps2) \<in> set entries" using assms(3) by simp
  from all_ok [OF this] obtain e2 where e2: "processProperty n2 ps2 = Inr e2" by blast
  have 1: "\<exists>e. map_of out (sanitizeName n2) = Some e \<and> fld e ''originalName'' = JStr n2"
    using m e2 processProperty_names [OF e2] by simp
  have 2: "fld e ''originalName'' \<noteq> JStr n1" if "(k, e) \<in> set out" for k e
  proof
    assume o: "fld e ''originalName'' = JStr n1"
    from processProperties_entry [OF assms(1) that] obtain n ps where
      l: "lastWithIdentifier k entries = Some (n, ps)" and s: "sanitizeName n = k"
      and p: "processProperty n ps = Inr e"
      by blast
    from processProperty_names [OF p] o have "n = n1" by simp
    with s assms(4) have "k = sanitizeName n2" by simp
    with l last have "n = n2" by simp
    with \<open>n = n1\<close> ne show False by simp
  qed
  have 3: "\<exists>n. fld e ''originalName'' = JStr n \<and> k = sanitizeName n" if "(k, e) \<in> set out" for k e
  proof -
    from processProperties_entry [OF assms(1) that] obtain n ps where
      s: "sanitizeName n = k" and p: "processProperty n ps = Inr e"
      by blast
    from processProperty_names [OF p] s show ?thesis by auto
  qed
  from 1 2 3 show ?thesis unfolding list_all_iff by blast
qed

lemma sanitize_a_b: "sanitizeName ''a-b'' = ''a_b''" "sanitizeName ''a_b'' = ''a_b''"
  by code_simp+

lemma sanitize_proto: "sanitizeName ''_-proto__'' = ''__proto__''" "sanitizeName ''__proto__'' = ''__proto__''"
  by code_simp+

lemma not_proto: "''a_b'' \<noteq> ''__proto__''"
  by simp

lemma colliding_result:
  "processProperties [] colliding_properties =
     Inr [(''a_b'', JObj
            [(''originalName'', JStr ''a_b''), (''name'', JStr ''a_b''), (''type'', JStr ''int''),
             (''default'', JUndef), (''example'', JUndef), (''regex'', JUndef),
             (''description'', JStr []), (''enum'', JUndef)])]"
  by (simp add: colliding_properties_def processProperty_def sanitize_a_b getPythonType.simps
        patternLiteral_def assignProperty_def objSet_def)

text \<open>The names \<open>a-b\<close> and \<open>a_b\<close> collide on \<open>a_b\<close>; the hypotheses hold there.\<close>

lemma colliding_names_example:
  "distinct (map fst colliding_properties)
   \<and> sanitizeName ''a-b'' = sanitizeName ''a_b''
   \<and> sanitizeName ''a_b'' \<noteq> ''__proto__''
   \<and> (\<exists>out. processProperties [] colliding_properties = Inr out
         \<and> (\<exists>e. map_of out (sanitizeName ''a_b'') = Some e \<and> fld e ''originalName'' = JStr ''a_b'')
         \<and> list_all (\<lambda>(k, e). fld e ''originalName'' \<noteq> JStr ''a-b'') out)"
proof -
  have d: "distinct (map fst colliding_properties)"
    by (simp add: colliding_properties_def)
  have s: "sanitizeName ''a-b'' = sanitizeName ''a_b''"
    by (simp add: sanitize_a_b)
  have p: "sanitizeName ''a_b'' \<noteq> ''__proto__''"
    by (simp add: sanitize_a_b)
  have sp: "colliding_properties =
      [] @ (''a-b'', JObj [(''type'', JStr ''string'')]) # [] @ (''a_b'', JObj [(''type'', JStr ''integer'')]) # []"
    by (simp add: colliding_properties_def)
  have l: "list_all (\<lambda>(n, ps). sanitizeName n \<noteq> sanitizeName ''a_b'') []"
    by simp
  from colliding_names_last_wins [OF colliding_result d sp s l p] colliding_result d s p
  show ?thesis by blast
qed

text \<open>
  C9. It is not so that of two distinct property names with the same sanitized form the
  later one always appears in the processed properties. The names \<open>_-proto__\<close> and
  \<open>__proto__\<close> both sanitize to \<open>__proto__\<close>. The write
  \<open>processedProperties[sanitizedName] = entry\<close> under that key runs the setter the map
  inherits from \<open>Object.prototype\<close> and stores no own property: the map of processed
  properties stays empty, and neither the earlier nor the later property appears in it.
\<close>

theorem proto_identifier_counterexample:
  "distinct (map fst [(''_-proto__'', JObj [(''type'', JStr ''string'')]),
                      (''__proto__'', JObj [(''type'', JStr ''integer'')])])
   \<and> sanitizeName ''_-proto__'' = sanitizeName ''__proto__''
   \<and> processProperties []
        [(''_-proto__'', JObj [(''type'', JStr ''string'')]),
         (''__proto__'', JObj [(''type'', JStr ''integer'')])] = Inr []"
  by (simp add: processProperty_def sanitize_proto getPythonType.simps patternLiteral_def
        assignProperty_def)

text \<open>
  The order of the loop is the order of \<open>Object.entries\<close>, not the order of declaration. A
  schema that declares the property \<open>_1\<close> and then the property \<open>1\<close> has them enumerated
  with the array index \<open>1\<close> first; both names sanitize to \<open>_1\<close>, and the entry that remains
  is the one of \<open>_1\<close>, the name declared earlier.
\<close>

lemma sanitize_index: "sanitizeName ''1'' = ''_1''" "sanitizeName ''_1'' = ''_1''"
  by code_simp+

lemma earlier_declared_wins:
  "declared [(''_1'', JObj [(''type'', JStr ''string'')]), (''1'', JObj [(''type'', JStr ''integer'')])]
     = [(''1'', JObj [(''type'', JStr ''integer'')]), (''_1'', JObj [(''type'', JStr ''string'')])]
   \<and> processProperties []
        (declared [(''_1'', JObj [(''type'', JStr ''string'')]),
                   (''1'', JObj [(''type'', JStr ''integer'')])])
     = Inr [(''_1'', JObj
            [(''originalName'', JStr ''_1''), (''name'', JStr ''_1''), (''type'', JStr ''str''),
             (''default'', JUndef), (''example'', JUndef), (''regex'', JUndef),
             (''description'', JStr []), (''enum'', JUndef)])]"
proof -
  have index: "isArrayIndex ''1''" "\<not> isArrayIndex ''_1''"
    by (simp_all add: isArrayIndex_def isDigit_def indexValue_def)
  have d: "declared [(''_1'', JObj [(''type'', JStr ''string'')]), (''1'', JObj [(''type'', JStr ''integer'')])]
     = [(''1'', JObj [(''type'', JStr ''integer'')]), (''_1'', JObj [(''type'', JStr ''string'')])]"
    by (simp add: declared_def objSet_def index)
  show ?thesis
    unfolding d
    by (simp add: processProperty_def sanitize_index getPythonType.simps patternLiteral_def
          assignProperty_def objSet_def index)
qed

text \<open>
  C6. The \<open>default\<close> of a property is normalized by kind (boolean, string, other). The
  \<open>example\<close> is not: only a string example is quoted, and a boolean example stays the
  boolean value instead of becoming the literal \<open>True\<close> or \<open>False\<close>.
\<close>

theorem example_boolean_kept:
  "processProperty ''flag''
     (JObj [(''type'', JStr ''boolean''), (''default'', JBool True), (''example'', JBool True)])
   = Inr (JObj
       [(''originalName'', JStr ''flag''), (''name'', JStr ''flag''), (''type'', JStr ''bool''),
        (''default'', JStr ''True''), (''example'', JBool True), (''regex'', JUndef),
        (''description'', JStr []), (''enum'', JUndef)])"
proof -
  have "sanitizeName ''flag'' = ''flag''" by code_simp
  then show ?thesis
    by (simp add: processProperty_def getPythonType.simps patternLiteral_def)
qed

lemma literal_normalization:
  "defaultLiteral (JBool b) = JStr (if b then ''True'' else ''False'')"
  "defaultLiteral (JStr s) = JStr ([CHR 0x22] @ s @ [CHR 0x22])"
  "defaultLiteral (JNum i) = JNum i"
  "exampleLiteral (JStr s) = JStr ([CHR 0x22] @ s @ [CHR 0x22])"
  "exampleLiteral (JNum i) = JNum i"
  "exampleLiteral (JBool b) = JBool b"
  by simp_all

section \<open>Properties of the emission pipeline\<close>

lemma onlyGrows_refl: "onlyGrows w w"
  by (simp add: onlyGrows_def)

lemma onlyGrows_trans: "onlyGrows w1 w2 \<Longrightarrow> onlyGrows w2 w3 \<Longrightarrow> onlyGrows w1 w3"
  unfolding onlyGrows_def by (meson prefix_order.order_trans)

lemma onlyGrows_log: "onlyGrows w (logMessage level message w)"
  by (simp add: onlyGrows_def logMessage_def)

lemma onlyGrows_log_after: "onlyGrows w w' \<Longrightarrow> onlyGrows w (logMessage level message w')"
  using onlyGrows_log onlyGrows_trans by blast

lemma onlyGrows_after_log: "onlyGrows (logMessage level message w) w' \<Longrightarrow> onlyGrows w w'"
  using onlyGrows_log onlyGrows_trans by blast

lemma onlyGrows_logAll: "onlyGrows w (logAll level messages w)"
proof (induction messages arbitrary: w)
  case Nil
  then show ?case by (simp add: logAll_def onlyGrows_refl)
next
  case (Cons m messages)
  have "onlyGrows (logMessage level m w) (logAll level messages (logMessage level m w))"
    by (rule Cons.IH)
  then show ?case
    using onlyGrows_log [of w level m] by (auto simp: logAll_def intro: onlyGrows_trans)
qed

lemma onlyGrows_ensureOutputDir: "ensureOutputDir E p w = Inr w' \<Longrightarrow> onlyGrows w w'"
  by (auto simp: ensureOutputDir_def onlyGrows_def split: if_splits option.splits)

lemma onlyGrows_writeFileSync: "writeFileSync E p c w = Inr w' \<Longrightarrow> onlyGrows w w'"
  by (auto simp: writeFileSync_def onlyGrows_def split: option.splits)

lemma renderAndWrite_failure:
  "renderAndWrite E tmpl ctx p d w = (Some e, w') \<Longrightarrow>
   w' = logMessage ''ERROR'' (d @ errorText E e) w"
  by (auto simp: renderAndWrite_def split: sum.splits)

lemma onlyGrows_renderAndWrite: "renderAndWrite E tmpl ctx p d w = (r, w') \<Longrightarrow> onlyGrows w w'"
  by (auto simp: renderAndWrite_def onlyGrows_log dest: onlyGrows_writeFileSync split: sum.splits)

lemma handled_renderAndWrite:
  "renderAndWrite E tmpl ctx p d w = (Some e, w') \<Longrightarrow> handlerText d \<Longrightarrow> handled E e w'"
  by (auto simp: handled_def logMessage_def dest!: renderAndWrite_failure)

lemma onlyGrows_generateTopLevel:
  "generateTopLevel E templates name fileName api outputDir w = (r, w') \<Longrightarrow> onlyGrows w w'"
  by (auto simp: generateTopLevel_def onlyGrows_refl split: option.splits
        dest!: onlyGrows_renderAndWrite intro: onlyGrows_after_log)

lemma field_TypeError: "field v k = Inl e \<Longrightarrow> e = TypeError"
  by (cases v) auto

lemma getPythonType_TypeError: "getPythonType t f i r = Inl e \<Longrightarrow> e = TypeError"
proof (induction t f i r rule: getPythonType.induct)
  case (1 openapiType format items ref)
  from "1.prems" show ?case
    by (subst (asm) getPythonType.simps)
       (auto split: if_splits json.splits sum.splits dest: "1.IH")
qed

lemma patternLiteral_TypeError: "patternLiteral p = Inl e \<Longrightarrow> e = TypeError"
  by (auto simp: patternLiteral_def split: if_splits json.splits)

lemma processProperty_TypeError: "processProperty n ps = Inl e \<Longrightarrow> e = TypeError"
  by (auto simp: processProperty_def split: sum.splits
        dest: field_TypeError getPythonType_TypeError patternLiteral_TypeError)

lemma processProperties_TypeError: "processProperties acc entries = Inl e \<Longrightarrow> e = TypeError"
  by (induction entries arbitrary: acc) (auto split: sum.splits dest: processProperty_TypeError)

lemma unionMember_TypeError: "unionMember sub = Inl e \<Longrightarrow> e = TypeError"
  by (auto simp: unionMember_def split: sum.splits if_splits json.splits dest: field_TypeError)

lemma unionMembers_TypeError: "unionMembers subs = Inl e \<Longrightarrow> e = TypeError"
  by (induction subs) (auto split: sum.splits dest: unionMember_TypeError)

lemma resolveRef_TypeError: "resolveRef ref components = Inl e \<Longrightarrow> e = TypeError"
  by (auto simp: resolveRef_def split: json.splits)

lemma memberTarget_TypeError: "memberTarget components sub = Inl e \<Longrightarrow> e = TypeError"
  by (auto simp: memberTarget_def split: sum.splits if_splits
        dest: field_TypeError resolveRef_TypeError)

lemma mergeInto_TypeError: "mergeInto base extra = Inl e \<Longrightarrow> e = TypeError"
  by (auto simp: mergeInto_def Let_def split: sum.splits if_splits option.splits
        dest: field_TypeError)

lemma resolver_TypeError:
  "(\<forall>schema e. mergeComplexSchema n schema components = Some (Inl e) \<longrightarrow> e = TypeError)
   \<and> (\<forall>subs merged e. mergeAllOf n subs merged components = Some (Inl e) \<longrightarrow> e = TypeError)"
proof (induction n)
  case 0
  have "e = TypeError" if "mergeAllOf 0 subs merged components = Some (Inl e)" for subs merged e
    using that
    by (cases subs) (auto split: sum.splits dest: memberTarget_TypeError)
  then show ?case by simp
next
  case (Suc n)
  have A: "e = TypeError" if "mergeComplexSchema (Suc n) schema components = Some (Inl e)"
    for schema e
    using that Suc.IH
    by (auto split: sum.splits if_splits option.splits json.splits simp del: fld.simps
          dest: field_TypeError unionMembers_TypeError)
  have B: "e = TypeError" if "mergeAllOf (Suc n) subs merged components = Some (Inl e)"
    for subs merged e
    using that
  proof (induction subs arbitrary: merged)
    case Nil
    then show ?case by simp
  next
    case (Cons sub subs)
    from Cons.prems show ?case
      by (auto split: sum.splits option.splits simp del: mergeComplexSchema.simps
            dest: memberTarget_TypeError mergeInto_TypeError A Cons.IH)
  qed
  from A B show ?case by blast
qed

lemma mergeComplexSchema_TypeError:
  "mergeComplexSchema n schema components = Some (Inl e) \<Longrightarrow> e = TypeError"
  using resolver_TypeError by blast

lemma objectEntries_TypeError: "objectEntries v = Inl e \<Longrightarrow> e = TypeError"
  by (cases v) auto

lemma addOperation_TypeError: "addOperation g tag m = Inl e \<Longrightarrow> e = TypeError"
  by (auto simp: addOperation_def split: option.splits if_splits)

lemma collect_error: "collect rs = Inl e \<Longrightarrow> Inl e \<in> set rs"
  by (induction rs) (auto split: sum.splits)

lemma toPropertyKey_TypeError: "toPropertyKey v = Inl e \<Longrightarrow> e = TypeError"
proof (induction v rule: toPropertyKey.induct)
  case (6 xs)
  from "6.prems" have
    "collect (map (\<lambda>x. if x = JUndef \<or> x = JNull then Inr [] else toPropertyKey x) xs) = Inl e"
    by (simp split: sum.splits)
  from collect_error [OF this] obtain x where
    "x \<in> set xs" "x \<noteq> JUndef" "x \<noteq> JNull" "toPropertyKey x = Inl e"
    by (auto split: if_splits)
  with "6.IH" show ?case by blast
qed (auto split: if_splits)

lemma groupKey_TypeError: "groupKey operation = Inl e \<Longrightarrow> e = TypeError"
  by (auto simp: groupKey_def Let_def dest: toPropertyKey_TypeError)

lemma groupMethods_TypeError: "groupMethods p ms g = Inl e \<Longrightarrow> e = TypeError"
  by (induction ms arbitrary: g)
     (auto split: if_splits sum.splits dest: addOperation_TypeError groupKey_TypeError)

lemma groupPaths_TypeError: "groupPaths entries g = Inl e \<Longrightarrow> e = TypeError"
  by (induction entries arbitrary: g)
     (auto split: sum.splits dest: objectEntries_TypeError groupMethods_TypeError)

lemma groupOperations_TypeError: "groupOperations paths = Inl e \<Longrightarrow> e = TypeError"
  by (auto simp: groupOperations_def dest: groupPaths_TypeError)

lemma componentsOf_TypeError: "componentsOf api = Inl e \<Longrightarrow> e = TypeError"
  by (auto simp: componentsOf_def Let_def split: sum.splits dest: field_TypeError)

lemma explained_renderAndWrite:
  "renderAndWrite E tmpl ctx p d w = (Some e, w') \<Longrightarrow> handlerText d \<Longrightarrow> explained E e w'"
  by (simp add: explained_def handled_renderAndWrite)

lemma diag_top:
  "handlerText (''Error generating '' @ ''main.py'' @ '': '')"
  "handlerText (''Error generating '' @ ''requirements.txt'' @ '': '')"
  "handlerText (''Error generating '' @ ''README.md'' @ '': '')"
  "handlerText ''Error generating oneOf union model: ''"
  by (simp_all add: handlerText_def)

lemma diag_named:
  "handlerText (''Error generating model for '' @ name @ '': '')"
  "handlerText (''Error generating empty model for '' @ name @ '': '')"
  "handlerText (''Error generating routes for tag '' @ name @ '': '')"
  unfolding handlerText_def by blast+

lemma explained_generateTopLevel:
  assumes "generateTopLevel E templates name fileName api outputDir w = (Some e, w')"
      and "handlerText (''Error generating '' @ fileName @ '': '')"
  shows "explained E e w'"
  using assms
  by (auto simp: generateTopLevel_def split: option.splits dest: explained_renderAndWrite)

lemma generateSchema_step:
  assumes "generateSchema E templates n components modelsDir schemaName schemaDef w = (r, w')"
  shows "onlyGrows w w' \<and> (\<forall>e. r = Some e \<longrightarrow> explained E e w')"
proof -
  let ?w1 = "logAll ''DEBUG'' (mergeComplexSchemaLog n schemaDef components)
               (logMessage ''DEBUG'' (''Processing schema: '' @ schemaName @ ''...'') w)"
  have g1: "onlyGrows w ?w1"
    using onlyGrows_log onlyGrows_logAll onlyGrows_trans by blast
  show ?thesis
  proof (cases "mergeComplexSchema n schemaDef components")
    case None
    with assms have "r = Some RangeError" "w' = ?w1"
      by (simp_all add: generateSchema_def Let_def)
    with g1 show ?thesis by (simp add: explained_def)
  next
    case (Some res)
    show ?thesis
    proof (cases res)
      case (Inl e)
      with Some assms have "r = Some e" "w' = ?w1"
        by (simp_all add: generateSchema_def Let_def)
      moreover from Some Inl have "e = TypeError"
        by (auto dest: mergeComplexSchema_TypeError)
      ultimately show ?thesis using g1 by (simp add: explained_def)
    next
      case (Inr sch)
      show ?thesis
      proof (cases "truthy (fld sch ''xOneOfUnion'')")
        case True
        let ?w2 = "logMessage ''DEBUG'' (''Detected oneOf union in schema: '' @ schemaName) ?w1"
        have g2: "onlyGrows w ?w2" using g1 by (rule onlyGrows_log_after)
        show ?thesis
        proof (cases "templates ''one_of_union''")
          case None
          with assms Some Inr True have "r = None" "w' = ?w2"
            by (simp_all add: generateSchema_def Let_def)
          with g2 show ?thesis by simp
        next
          case (Some tmpl)
          with assms \<open>mergeComplexSchema n schemaDef components = Some res\<close> Inr True
          have rw: "renderAndWrite E tmpl
                               (JObj [(''name'', JStr schemaName),
                                      (''unionTypes'', fld sch ''xOneOfUnion'')])
                               (pathJoin E modelsDir (toLowerCase E schemaName @ ''.py''))
                               ''Error generating oneOf union model: '' ?w2 = (r, w')"
            by (simp add: generateSchema_def Let_def)
          from onlyGrows_renderAndWrite [OF rw] g2 have "onlyGrows w w'"
            by (rule onlyGrows_trans [rotated])
          moreover have "explained E e w'" if "r = Some e" for e
            using rw that diag_top(4) by (auto dest: explained_renderAndWrite)
          ultimately show ?thesis by blast
        qed
      next
        case False
        note notUnion = False
        show ?thesis
        proof (cases "truthy (fld sch ''properties'')")
          case True
          let ?w2 = "logMessage ''DEBUG'' (''Building properties for: '' @ schemaName) ?w1"
          have g2: "onlyGrows w ?w2" using g1 by (rule onlyGrows_log_after)
          show ?thesis
          proof (cases "processProperties [] (ownEntries (fld sch ''properties''))")
            case (Inl e)
            with assms Some Inr notUnion True have "r = Some e" "w' = ?w2"
              by (simp_all add: generateSchema_def Let_def)
            moreover from Inl have "e = TypeError" by (rule processProperties_TypeError)
            ultimately show ?thesis using g2 by (simp add: explained_def)
          next
            case pp: (Inr processedProperties)
            let ?w3 = "logMessage ''DEBUG'' (''Checking for enum fields in: '' @ schemaName) ?w2"
            have g3: "onlyGrows w ?w3" using g2 by (rule onlyGrows_log_after)
            obtain createdEnums processed where
              pe: "processEnums schemaName processedProperties = (createdEnums, processed)"
              by (cases "processEnums schemaName processedProperties")
            show ?thesis
            proof (cases "templates ''model_class''")
              case None
              with assms Some Inr notUnion True pp pe have "r = None" "w' = ?w3"
                by (simp_all add: generateSchema_def Let_def)
              with g3 show ?thesis by simp
            next
              case tm: (Some tmpl)
              let ?w4 = "logMessage ''INFO'' (''Rendering model_class template for: '' @ schemaName) ?w3"
              have g4: "onlyGrows w ?w4" using g3 by (rule onlyGrows_log_after)
              from assms Some Inr notUnion True pp pe tm
              have rw: "renderAndWrite E tmpl
                                       (JObj [(''name'', JStr schemaName),
                                              (''schema'', setProcessedProperties sch processed),
                                              (''importsList'', JArr (map JStr (gatherImportsForProps processed))),
                                              (''createdEnums'', JArr createdEnums)])
                                       (pathJoin E modelsDir (toLowerCase E schemaName @ ''.py''))
                                       (''Error generating model for '' @ schemaName @ '': '')
                                       ?w4 = (r, w')"
                by (simp add: generateSchema_def Let_def)
              from onlyGrows_renderAndWrite [OF rw] g4 have "onlyGrows w w'"
                by (rule onlyGrows_trans [rotated])
              moreover have "explained E e w'" if "r = Some e" for e
                using rw that diag_named(1) by (auto dest: explained_renderAndWrite)
              ultimately show ?thesis by blast
            qed
          qed
        next
          case False
          let ?w2 = "logMessage ''WARN''
                           (''Schema '' @ schemaName @ '' has no properties; creating empty model.'') ?w1"
          have g2: "onlyGrows w ?w2" using g1 by (rule onlyGrows_log_after)
          show ?thesis
          proof (cases "templates ''model_class''")
            case None
            with assms Some Inr notUnion False have "r = None" "w' = ?w2"
              by (simp_all add: generateSchema_def Let_def)
            with g2 show ?thesis by simp
          next
            case tm: (Some tmpl)
            from assms Some Inr notUnion False tm
            have rw: "renderAndWrite E tmpl
                               (JObj [(''name'', JStr schemaName), (''schema'', sch),
                                      (''importsList'', JArr []), (''createdEnums'', JArr [])])
                               (pathJoin E modelsDir (toLowerCase E schemaName @ ''.py''))
                               (''Error generating empty model for '' @ schemaName @ '': '') ?w2 = (r, w')"
              by (simp add: generateSchema_def Let_def)
            from onlyGrows_renderAndWrite [OF rw] g2 have "onlyGrows w w'"
              by (rule onlyGrows_trans [rotated])
            moreover have "explained E e w'" if "r = Some e" for e
              using rw that diag_named(2) by (auto dest: explained_renderAndWrite)
            ultimately show ?thesis by blast
          qed
        qed
      qed
    qed
  qed
qed

lemma generateSchemas_step:
  "generateSchemas E templates n components modelsDir entries w = (r, w') \<Longrightarrow>
   onlyGrows w w' \<and> (\<forall>e. r = Some e \<longrightarrow> explained E e w')"
proof (induction entries arbitrary: w)
  case Nil
  then show ?case by (simp add: onlyGrows_refl)
next
  case (Cons nd entries)
  obtain schemaName schemaDef where nd: "nd = (schemaName, schemaDef)" by (cases nd)
  obtain r1 w1 where
    s: "generateSchema E templates n components modelsDir schemaName schemaDef w = (r1, w1)"
    by (cases "generateSchema E templates n components modelsDir schemaName schemaDef w")
  note st = generateSchema_step [OF s]
  show ?case
  proof (cases r1)
    case None
    with Cons.prems nd s have "generateSchemas E templates n components modelsDir entries w1 = (r, w')"
      by simp
    from Cons.IH [OF this] st show ?thesis
      using onlyGrows_trans by blast
  next
    case (Some e)
    with Cons.prems nd s have "r = Some e" "w' = w1" by simp_all
    with st Some show ?thesis by simp
  qed
qed

lemma generateRoutes_step:
  "generateRoutes E tmpl apisDir groups w = (r, w') \<Longrightarrow>
   onlyGrows w w' \<and> (\<forall>e. r = Some e \<longrightarrow> explained E e w')"
proof (induction groups arbitrary: w)
  case Nil
  then show ?case by (simp add: onlyGrows_refl)
next
  case (Cons g groups)
  obtain tag operations where g: "g = (tag, operations)" by (cases g)
  let ?w1 = "logMessage ''DEBUG'' (''Rendering api_routes for tag: '' @ tag) w"
  obtain r1 w1 where
    rw: "renderAndWrite E tmpl
             (JObj [(''tag'', JStr tag), (''operations'', JArr (map memberContext operations))])
             (pathJoin E apisDir (toLowerCase E tag @ ''.py''))
             (''Error generating routes for tag '' @ tag @ '': '') ?w1 = (r1, w1)"
    by (cases "renderAndWrite E tmpl
             (JObj [(''tag'', JStr tag), (''operations'', JArr (map memberContext operations))])
             (pathJoin E apisDir (toLowerCase E tag @ ''.py''))
             (''Error generating routes for tag '' @ tag @ '': '') ?w1")
  from onlyGrows_renderAndWrite [OF rw] have g1: "onlyGrows w w1"
    by (rule onlyGrows_after_log)
  show ?case
  proof (cases r1)
    case None
    with Cons.prems g rw have "generateRoutes E tmpl apisDir groups w1 = (r, w')" by simp
    from Cons.IH [OF this] g1 show ?thesis using onlyGrows_trans by blast
  next
    case (Some e)
    with Cons.prems g rw have "r = Some e" "w' = w1" by simp_all
    moreover from rw Some have "explained E e w1"
      using diag_named(3) by (auto dest: explained_renderAndWrite)
    ultimately show ?thesis using g1 by simp
  qed
qed

lemma generateAggregatorFile_step:
  "generateAggregatorFile E apisDir groups w = (r, w') \<Longrightarrow>
   onlyGrows w w' \<and> (\<forall>e. r = Some e \<longrightarrow> explained E e w')"
  by (auto simp: generateAggregatorFile_def Let_def onlyGrows_log explained_def writeFileSync_def
        logMessage_def onlyGrows_def
        split: if_splits sum.splits option.splits)

lemma generateApis_step:
  assumes "generateApis E templates api apisDir w = (r, w')"
  shows "onlyGrows w w' \<and> (\<forall>e. r = Some e \<longrightarrow> explained E e w')"
proof (cases "if truthy (fld api ''paths'') then templates ''api_routes'' else None")
  case None
  with assms show ?thesis
    by (auto simp: generateApis_def onlyGrows_log)
next
  case (Some tmpl)
  let ?w1 = "logMessage ''INFO'' ''Generating route files...'' w"
  have g1: "onlyGrows w ?w1" by (rule onlyGrows_log)
  show ?thesis
  proof (cases "groupOperations (fld api ''paths'')")
    case (Inl e)
    with assms Some have "r = Some e" "w' = ?w1"
      by (simp_all add: generateApis_def Let_def)
    moreover from Inl have "e = TypeError" by (rule groupOperations_TypeError)
    ultimately show ?thesis using g1 by (simp add: explained_def)
  next
    case (Inr pathsByTag)
    obtain r2 w2 where rt: "generateRoutes E tmpl apisDir pathsByTag ?w1 = (r2, w2)"
      by (cases "generateRoutes E tmpl apisDir pathsByTag ?w1")
    note st = generateRoutes_step [OF rt]
    from st g1 have g2: "onlyGrows w w2" using onlyGrows_trans by blast
    show ?thesis
    proof (cases r2)
      case None
      with assms Some Inr rt have "generateAggregatorFile E apisDir pathsByTag w2 = (r, w')"
        by (simp add: generateApis_def Let_def)
      from generateAggregatorFile_step [OF this] g2 show ?thesis
        using onlyGrows_trans by blast
    next
      case e: (Some e)
      with assms Some Inr rt have "r = Some e" "w' = w2"
        by (simp_all add: generateApis_def Let_def)
      with st e g2 show ?thesis by simp
    qed
  qed
qed

lemma generateTopLevel_step:
  assumes "generateTopLevel E templates name fileName api outputDir w = (r, w')"
      and "handlerText (''Error generating '' @ fileName @ '': '')"
  shows "onlyGrows w w' \<and> (\<forall>e. r = Some e \<longrightarrow> explained E e w')"
  using onlyGrows_generateTopLevel [OF assms(1)] explained_generateTopLevel [OF _ assms(2)] assms(1)
  by blast

lemma generateArtifacts_step:
  assumes "generateArtifacts E templates n api outputDir w = (r, w')"
  shows "onlyGrows w w' \<and> (\<forall>e. r = Some e \<longrightarrow> explained E e w')"
proof -
  obtain r1 w1 where t1: "generateTopLevel E templates ''main'' ''main.py'' api outputDir w = (r1, w1)"
    by (cases "generateTopLevel E templates ''main'' ''main.py'' api outputDir w")
  note s1 = generateTopLevel_step [OF t1 diag_top(1)]
  show ?thesis
  proof (cases r1)
    case (Some e)
    with assms t1 have "r = Some e" "w' = w1" by (simp_all add: generateArtifacts_def)
    with s1 Some show ?thesis by simp
  next
    case None
    note n1 = None
    obtain r2 w2 where
      t2: "generateTopLevel E templates ''requirements'' ''requirements.txt'' api outputDir w1 = (r2, w2)"
      by (cases "generateTopLevel E templates ''requirements'' ''requirements.txt'' api outputDir w1")
    note s2 = generateTopLevel_step [OF t2 diag_top(2)]
    from s1 s2 have g2: "onlyGrows w w2" using onlyGrows_trans by blast
    show ?thesis
    proof (cases r2)
      case (Some e)
      with assms t1 n1 t2 have "r = Some e" "w' = w2" by (simp_all add: generateArtifacts_def)
      with s2 g2 Some show ?thesis by simp
    next
      case None
      note n2 = None
      obtain r3 w3 where
        t3: "generateTopLevel E templates ''README'' ''README.md'' api outputDir w2 = (r3, w3)"
        by (cases "generateTopLevel E templates ''README'' ''README.md'' api outputDir w2")
      note s3 = generateTopLevel_step [OF t3 diag_top(3)]
      from g2 s3 have g3: "onlyGrows w w3" using onlyGrows_trans by blast
      show ?thesis
      proof (cases r3)
        case (Some e)
        with assms t1 n1 t2 n2 t3 have "r = Some e" "w' = w3"
          by (simp_all add: generateArtifacts_def)
        with s3 g3 Some show ?thesis by simp
      next
        case None
        note n3 = None
        show ?thesis
        proof (cases "componentsOf api")
          case (Inl e)
          with assms t1 n1 t2 n2 t3 n3 have "r = Some e" "w' = w3"
            by (simp_all add: generateArtifacts_def)
          moreover from Inl have "e = TypeError" by (rule componentsOf_TypeError)
          ultimately show ?thesis using g3 by (simp add: explained_def)
        next
          case (Inr components)
          obtain r4 w4 where
            t4: "generateSchemas E templates n components (pathJoin E outputDir ''models'')
                   components w3 = (r4, w4)"
            by (cases "generateSchemas E templates n components (pathJoin E outputDir ''models'')
                   components w3")
          note s4 = generateSchemas_step [OF t4]
          from g3 s4 have g4: "onlyGrows w w4" using onlyGrows_trans by blast
          show ?thesis
          proof (cases r4)
            case (Some e)
            with assms t1 n1 t2 n2 t3 n3 Inr t4 have "r = Some e" "w' = w4"
              by (simp_all add: generateArtifacts_def)
            with s4 g4 Some show ?thesis by simp
          next
            case None
            note n4 = None
            obtain r5 w5 where
              t5: "generateApis E templates api (pathJoin E outputDir ''apis'') w4 = (r5, w5)"
              by (cases "generateApis E templates api (pathJoin E outputDir ''apis'') w4")
            note s5 = generateApis_step [OF t5]
            from g4 s5 have g5: "onlyGrows w w5" using onlyGrows_trans by blast
            show ?thesis
            proof (cases r5)
              case (Some e)
              with assms t1 n1 t2 n2 t3 n3 Inr t4 n4 t5 have "r = Some e" "w' = w5"
                by (simp_all add: generateArtifacts_def)
              with s5 g5 Some show ?thesis by simp
            next
              case None
              with assms t1 n1 t2 n2 t3 n3 Inr t4 n4 t5
              have "r = None" "w' = logMessage ''INFO'' ''Python FastAPI Code Generation complete.'' w5"
                by (simp_all add: generateArtifacts_def)
              with g5 show ?thesis by (simp add: onlyGrows_log_after)
            qed
          qed
        qed
      qed
    qed
  qed
qed

lemma generateBody_step:
  assumes "generateBody E n api outputDir w = (r, w')"
  shows "onlyGrows w w' \<and> (\<forall>e. r = Some e \<longrightarrow> explained E e w')"
proof -
  let ?w1 = "logMessage ''INFO'' ''Starting generation process...'' w"
  have g1: "onlyGrows w ?w1" by (rule onlyGrows_log)
  have dirFail: "explained E e w0" if "ensureOutputDir E p w0' = Inl e" for e p w0 w0'
    using that by (auto simp: ensureOutputDir_def explained_def split: if_splits option.splits)
  show ?thesis
  proof (cases "ensureOutputDir E outputDir ?w1")
    case (Inl e)
    with assms have "r = Some e" "w' = ?w1" by (simp_all add: generateBody_def Let_def)
    with g1 dirFail [OF Inl] show ?thesis by simp
  next
    case d1: (Inr w2)
    from onlyGrows_ensureOutputDir [OF d1] g1 have g2: "onlyGrows w w2"
      using onlyGrows_trans by blast
    show ?thesis
    proof (cases "ensureOutputDir E (pathJoin E outputDir ''models'') w2")
      case (Inl e)
      with assms d1 have "r = Some e" "w' = w2" by (simp_all add: generateBody_def Let_def)
      with g2 dirFail [OF Inl] show ?thesis by simp
    next
      case d2: (Inr w3)
      from onlyGrows_ensureOutputDir [OF d2] g2 have g3: "onlyGrows w w3"
        using onlyGrows_trans by blast
      show ?thesis
      proof (cases "ensureOutputDir E (pathJoin E outputDir ''apis'') w3")
        case (Inl e)
        with assms d1 d2 have "r = Some e" "w' = w3" by (simp_all add: generateBody_def Let_def)
        with g3 dirFail [OF Inl] show ?thesis by simp
      next
        case d3: (Inr w4)
        from onlyGrows_ensureOutputDir [OF d3] g3 have g4: "onlyGrows w w4"
          using onlyGrows_trans by blast
        show ?thesis
        proof (cases "loadTemplates E")
          case (Inl e)
          with assms d1 d2 d3
          have "r = Some e"
            "w' = logMessage ''ERROR'' (''Failed to load templates: '' @ errorText E e) w4"
            by (simp_all add: generateBody_def Let_def)
          moreover have "onlyGrows w (logMessage ''ERROR'' (''Failed to load templates: '' @ errorText E e) w4)"
            using g4 by (rule onlyGrows_log_after)
          moreover have "explained E e (logMessage ''ERROR'' (''Failed to load templates: '' @ errorText E e) w4)"
            using Inl unfolding explained_def logMessage_def by simp
          ultimately show ?thesis by simp
        next
          case (Inr templates)
          with assms d1 d2 d3
          have "generateArtifacts E templates n api outputDir
                  (logMessage ''INFO'' ''Templates loaded successfully.'' w4) = (r, w')"
            by (simp add: generateBody_def Let_def)
          from generateArtifacts_step [OF this] g4 show ?thesis
            using onlyGrows_trans onlyGrows_log_after by blast
        qed
      qed
    qed
  qed
qed

text \<open>
  A run that fails logs \<open>Generation failed\<close> with the text of the error last, and the error
  is the one the failing step threw.
\<close>

lemma generate_failure:
  assumes "generate E n api outputDir w = (Some e, w')"
  shows "\<exists>w''. w' = logMessage ''ERROR'' (''Generation failed: '' @ errorText E e) w''
           \<and> onlyGrows w w'' \<and> explained E e w''"
proof -
  from assms obtain w'' where
    b: "generateBody E n api outputDir w = (Some e, w'')"
    and w': "w' = logMessage ''ERROR'' (''Generation failed: '' @ errorText E e) w''"
    by (auto simp: generate_def split: option.splits prod.splits)
  from generateBody_step [OF b] w' show ?thesis by blast
qed

text \<open>Whatever the outcome of a run, what was written before it ended is still written.\<close>

lemma generate_no_rollback:
  assumes "generate E n api outputDir w = (r, w')"
  shows "onlyGrows w w'"
proof -
  obtain r0 w0 where b: "generateBody E n api outputDir w = (r0, w0)"
    by (cases "generateBody E n api outputDir w")
  from generateBody_step [OF b] have g: "onlyGrows w w0" by blast
  from assms b have "w' = w0 \<or> (\<exists>m. w' = logMessage ''ERROR'' m w0)"
    by (auto simp: generate_def split: option.splits)
  with g show ?thesis by (auto simp: onlyGrows_log_after)
qed

text \<open>
  When the templates are loaded and the run fails with the error of a render function,
  the last two diagnostics are the error-level diagnostic of the handler around the
  artifact and the general one.
\<close>

lemma render_failure_handled:
  assumes "generate E n api outputDir w = (Some (RenderFailure msg), w')"
      and "loadTemplates E = Inr templates"
  shows "\<exists>before d. handlerText d
           \<and> logged w' = before @ [(''ERROR'', d @ msg), (''ERROR'', ''Generation failed: '' @ msg)]
           \<and> prefix (written w) (written w')"
proof -
  from generate_failure [OF assms(1)] obtain w'' where
    w': "w' = logMessage ''ERROR'' (''Generation failed: '' @ errorText E (RenderFailure msg)) w''"
    and g: "onlyGrows w w''" and e: "explained E (RenderFailure msg) w''"
    by blast
  from e assms(2) have "handled E (RenderFailure msg) w''"
    by (auto simp: explained_def)
  then obtain before d where "handlerText d" "logged w'' = before @ [(''ERROR'', d @ msg)]"
    by (auto simp: handled_def)
  with w' g show ?thesis
    by (auto simp: logMessage_def onlyGrows_def)
qed

lemma lower_pets: "asciiLower ''pets'' = ''pets''"
  by (simp add: asciiLower_def)

lemma pets_groups:
  "groupOperations (JObj [(''/pets'', JObj [(''get'', JObj [(''tags'', JArr [JStr ''pets''])])])])
     = Inr [(''pets'', [(''/pets'', ''get'', JObj [(''tags'', JArr [JStr ''pets''])])])]"
  by (simp add: groupOperations_def groupKey_def addOperation_def objSet_def
        OBJECT_PROTOTYPE_NAMES_def isArrayIndex_def isDigit_def)

text \<open>
  When the run fails with the error of a write, the last two diagnostics are either the
  diagnostic of the handler around the artifact and the general one, or the start of the
  aggregator step and the general one.
\<close>

lemma write_failure_diagnostics:
  assumes "generate E n api outputDir w = (Some (WriteFailure msg), w')"
      and "loadTemplates E = Inr templates"
  shows "(\<exists>before d. handlerText d
            \<and> logged w' = before @ [(''ERROR'', d @ msg), (''ERROR'', ''Generation failed: '' @ msg)])
         \<or> (\<exists>before. logged w' =
               before @ [(''INFO'', ''Generating aggregator file for multiple tags...''),
                         (''ERROR'', ''Generation failed: '' @ msg)])"
proof -
  from generate_failure [OF assms(1)] obtain w'' where
    w': "w' = logMessage ''ERROR'' (''Generation failed: '' @ errorText E (WriteFailure msg)) w''"
    and e: "explained E (WriteFailure msg) w''"
    by blast
  from e assms(2) consider
    (artifact) "handled E (WriteFailure msg) w''"
    | (aggregator) "\<exists>before. logged w'' =
         before @ [(''INFO'', ''Generating aggregator file for multiple tags...'')]"
    by (auto simp: explained_def)
  then show ?thesis
  proof cases
    case artifact
    then obtain before d where
      "handlerText d" "logged w'' = before @ [(''ERROR'', d @ msg)]"
      by (auto simp: handled_def)
    with w' show ?thesis by (auto simp: logMessage_def)
  next
    case aggregator
    with w' show ?thesis by (auto simp: logMessage_def)
  qed
qed

text \<open>
  A cycle of references is resolved at no depth; the run that meets one ends with the
  \<open>RangeError\<close> of the exhausted call stack, whatever room the stack has.
\<close>

lemma cycle_never_resolves: "mergeComplexSchema n cycle_schema cycle_components = None"
proof (induction n)
  case 0
  then show ?case by simp
next
  case (Suc n)
  have t: "memberTarget cycle_components (JObj [(''$ref'', JStr ''#/components/schemas/A'')])
             = Inr cycle_schema"
    by (simp add: memberTarget_def resolveRef_def lastSegment_def member_def cycle_components_def)
  have "mergeAllOf n [JObj [(''$ref'', JStr ''#/components/schemas/A'')]] emptyMerged cycle_components
          = None"
    using Suc.IH t by simp
  then show ?case
    by (simp add: cycle_schema_def)
qed

lemma cycle_is_RangeError:
  "fst (generateSchema E templates n cycle_components modelsDir ''A'' cycle_schema w) = Some RangeError"
  by (simp add: generateSchema_def cycle_never_resolves Let_def)

text \<open>
  The handlers of \<open>main.py\<close>, \<open>requirements.txt\<close> and \<open>README.md\<close>, of a model, of an empty
  model and of a route file build their diagnostic around the name of the file, of the
  schema or of the tag: when one of these artifacts fails, an error-level diagnostic
  mentions it.
\<close>

lemma includesStr_prefix: "includesStr (s @ b) s"
proof -
  have "prefix s (s @ b)" by simp
  then show ?thesis by (cases "s @ b") auto
qed

lemma includesStr_append_left: "includesStr t s \<Longrightarrow> includesStr (a @ t) s"
  by (induction a) auto

lemma includesStr_middle: "includesStr (a @ s @ b) s"
  by (rule includesStr_append_left) (rule includesStr_prefix)

lemma handler_mentions:
  assumes "renderAndWrite E tmpl ctx p (a @ name @ b) w = (Some e, w')"
  shows "mentions name w'"
proof -
  from renderAndWrite_failure [OF assms]
  have "logged w' = logged w @ [(''ERROR'', a @ name @ b @ errorText E e)]"
    by (simp add: logMessage_def)
  then show ?thesis
    by (simp add: mentions_def includesStr_middle)
qed

lemma named_handlers_mention:
  "renderAndWrite E tmpl ctx p (''Error generating '' @ fileName @ '': '') w = (Some e, w')
     \<Longrightarrow> mentions fileName w'"
  "renderAndWrite E tmpl ctx p (''Error generating model for '' @ schemaName @ '': '') w = (Some e, w')
     \<Longrightarrow> mentions schemaName w'"
  "renderAndWrite E tmpl ctx p (''Error generating empty model for '' @ schemaName @ '': '') w = (Some e, w')
     \<Longrightarrow> mentions schemaName w'"
  "renderAndWrite E tmpl ctx p (''Error generating routes for tag '' @ tag @ '': '') w = (Some e, w')
     \<Longrightarrow> mentions tag w'"
  by (rule handler_mentions, assumption)+

text \<open>
  A failure to write the aggregator file \<open>__init__.py\<close> has no handler of its own:
  \<open>generateAggregatorFile\<close> writes outside any \<open>try\<close> block but the outer one. The only
  error-level diagnostic of the run is the general one, which holds the text of the error
  and nothing else. The route file written before remains.
\<close>

lemma aggregator_failure_diagnostics:
  "generate (aggregator_failing_env shown) 1 pets_api ''out'' emptyWorld =
     (Some (WriteFailure shown),
      \<lparr> written = [(''out/apis/pets.py'', ''# routes'')],
        madeDirs = [''out'', ''out/models'', ''out/apis''],
        logged = [(''INFO'', ''Starting generation process...''),
                  (''INFO'', ''Templates loaded successfully.''),
                  (''INFO'', ''Generating route files...''),
                  (''DEBUG'', ''Rendering api_routes for tag: pets''),
                  (''INFO'', ''Generating aggregator file for multiple tags...''),
                  (''ERROR'', ''Generation failed: '' @ shown)] \<rparr>)"
  by (simp add: generate_def generateBody_def generateArtifacts_def generateTopLevel_def
        generateApis_def generateAggregatorFile_def renderAndWrite_def componentsOf_def
        ensureOutputDir_def writeFileSync_def logMessage_def aggregator_failing_env_def
        routes_only_templates_def pets_api_def emptyWorld_def pets_groups lower_pets Let_def)

lemma lower_Pet: "asciiLower ''Pet'' = ''pet''"
  by code_simp

lemma union_api_marker:
  "mergeComplexSchema (Suc 0)
     (JObj [(''oneOf'', JArr [JObj [(''$ref'', JStr ''#/components/schemas/Cat'')],
                              JObj [(''$ref'', JStr ''#/components/schemas/Dog'')]])])
     components
   = Some (Inr (JObj [(''xOneOfUnion'', JArr [JStr ''Cat'', JStr ''Dog''])]))"
proof -
  have names: "unionMembers [JObj [(''$ref'', JStr ''#/components/schemas/Cat'')],
                             JObj [(''$ref'', JStr ''#/components/schemas/Dog'')]]
               = Inr [''Cat'', ''Dog'']"
    by (simp add: unionMember_def lastSegment_def sanitizeName_def replaceNonWord_def
          isWordChar_def isDigit_def PYTHON_RESERVED_WORDS_def)
  show ?thesis
    by (simp add: names del: unionMembers.simps)
qed

lemma union_failing_run:
  "generate union_failing_env 1 union_api ''out'' emptyWorld =
     (Some (RenderFailure ''Error: The partial header could not be found''), union_failing_world)"
  by (simp add: generate_def generateBody_def generateArtifacts_def generateTopLevel_def
        generateSchema_def generateApis_def renderAndWrite_def componentsOf_def
        ensureOutputDir_def writeFileSync_def logMessage_def logAll_def union_failing_env_def
        union_failing_templates_def union_api_def union_failing_world_def emptyWorld_def
        union_api_marker lower_Pet Let_def
        del: mergeComplexSchema.simps)

text \<open>
  C8. A failing run rejects with the error thrown, after the error-level diagnostic
  \<open>Generation failed\<close> (\<open>generate_failure\<close>), and nothing written before is taken back
  (\<open>generate_no_rollback\<close>). But the error-level diagnostics of a failing artifact do not
  always identify it. In the run below the render function of the union template throws
  for the schema \<open>Pet\<close>. The handler of the union model logs
  \<open>Error generating oneOf union model\<close> and the text of the error, the outer handler logs
  \<open>Generation failed\<close> and the same text: no error-level diagnostic mentions the schema
  \<open>Pet\<close> or its file \<open>pet.py\<close>, where the handlers of a model and of an empty model name the
  schema. The file \<open>main.py\<close> written before remains.
\<close>

theorem union_failure_not_identified:
  "generate union_failing_env 1 union_api ''out'' emptyWorld =
     (Some (RenderFailure ''Error: The partial header could not be found''), union_failing_world)
   \<and> written union_failing_world = [(''out/main.py'', ''# main'')]
   \<and> filter (\<lambda>(level, message). level = ''ERROR'') (logged union_failing_world) =
       [(''ERROR'', ''Error generating oneOf union model: Error: The partial header could not be found''),
        (''ERROR'', ''Generation failed: Error: The partial header could not be found'')]
   \<and> \<not> mentions ''Pet'' union_failing_world
   \<and> \<not> mentions ''pet.py'' union_failing_world"
  using union_failing_run
  by (simp add: union_failing_world_def mentions_def)

end
